theory Spec2Isabelle
  imports Complex_Main "HOL-Library.Word" "HOL-Library.Multiset"
begin

section \<open>The Ape-X actor: data model\<close>

text \<open>
  A shallow embedding of \<^verbatim>\<open>Actor\<close> of \<^verbatim>\<open>actor.py\<close>. Python's floats
  (rewards, the discount, the exploration rate, pixel intensities after scaling) are
  idealised as \<^typ>\<open>real\<close>; the bytes of a grayscale frame are \<^typ>\<open>8 word\<close>.
  Exceptions of the Python run time are values of \<open>error\<close>.
\<close>

datatype error = IndexError | ValueError | ZeroDivisionError

type_synonym frame = "8 word list list"

text \<open>The two channels \<^verbatim>\<open>[:,:,0]\<close> and \<^verbatim>\<open>[:,:,1]\<close> of a \<^verbatim>\<open>(210, 160, 2)\<close> array.\<close>

type_synonym screen = "frame \<times> frame"

type_synonym tile = "real list list"

text \<open>\<^verbatim>\<open>utils.Transition\<close>; the field \<^verbatim>\<open>done\<close> is \<open>done_flag\<close> here.\<close>

record transition =
  state :: "tile list"
  action :: nat
  reward :: real
  next_state :: "tile list"
  done_flag :: bool

text \<open>The constructor's arguments that the loop reads. A negative \<^verbatim>\<open>maxlen\<close> is refused
  by \<^verbatim>\<open>deque\<close> with a ValueError before any step, so \<open>buf_size\<close> and
  \<open>nstep_return\<close> are naturals.\<close>

record config =
  actor_no :: int
  batch_size :: int
  nstep_return :: nat
  gamma :: real
  buf_size :: nat
  target_update :: int
  num_total_actors :: int

text \<open>
  The collaborators the actor calls and does not define: the gym environment (over
  its own state \<open>'e\<close>), \<^verbatim>\<open>skimage\<close>'s \<^verbatim>\<open>resize\<close>, the policy network (its
  parameters are \<open>'p\<close>) with \<^verbatim>\<open>utils.epsilon_greedy\<close> and
  \<^verbatim>\<open>calc_priorities\<close>, \<^verbatim>\<open>utils.loads\<close> followed by
  \<^verbatim>\<open>load_state_dict\<close> on a blob \<open>'b\<close> of the store, and the reward clipping
  function. Random choices inside a collaborator are its last argument.
\<close>

record ('e, 'p, 'b) collab =
  env_reset :: "'e \<Rightarrow> 'e"
  env_step :: "'e \<Rightarrow> nat \<Rightarrow> 'e \<times> real \<times> bool"
  getScreenGrayscale :: "'e \<Rightarrow> frame"
  resize :: "real list list \<Rightarrow> tile"
  epsilon_greedy :: "tile list \<Rightarrow> 'p \<Rightarrow> real \<Rightarrow> nat \<Rightarrow> nat"
  calc_priorities :: "'p \<Rightarrow> transition list \<Rightarrow> real \<Rightarrow> real list"
  loads :: "'b \<Rightarrow> 'p"
  clip :: "real \<Rightarrow> real"

text \<open>The values one iteration of the loop receives from outside: raw random draws, the
  uninitialised contents of \<^verbatim>\<open>np.empty\<close>, and the store's answer to
  \<^verbatim>\<open>get('params')\<close>.\<close>

record 'b step_input =
  act_rnd :: nat
  screen_temp0 :: screen
  noop_rnd :: nat
  sample_rnd :: "nat list"
  store_params :: "'b option"

text \<open>The fields of \<^verbatim>\<open>self\<close> and the locals of \<^verbatim>\<open>run\<close> that change; \<open>experience\<close>
  is the list of records this actor has pushed with \<^verbatim>\<open>rpush\<close>, \<open>t_count\<close> is
  the loop counter \<^verbatim>\<open>t\<close>.\<close>

record ('e, 'p) actor =
  env :: 'e
  policy_net :: 'p
  img_buf :: "tile list"
  local_memory :: "transition list"
  cur_state :: "tile list"
  step_buffer :: "transition list"
  length_epsiode :: nat
  n_episode :: nat
  eps :: real
  t_count :: nat
  experience :: "(transition list \<times> real list) list"

section \<open>Containers\<close>

text \<open>\<^verbatim>\<open>deque(maxlen=m).append(x)\<close>: nothing is stored when \<open>m = 0\<close>; otherwise the
  element goes to the right and the leftmost one is dropped when the bound is exceeded.\<close>

definition deque_append :: "nat \<Rightarrow> 'a list \<Rightarrow> 'a \<Rightarrow> 'a list" where
  "deque_append m xs x =
     (if m = 0 then xs
      else if length (xs @ [x]) > m then tl (xs @ [x]) else xs @ [x])"

text \<open>Python indexing of a list or deque: a negative index counts from the end.\<close>

definition py_index :: "'a list \<Rightarrow> int \<Rightarrow> error + 'a" where
  "py_index xs i =
     (if 0 \<le> i \<and> i < int (length xs) then Inr (xs ! nat i)
      else if i < 0 \<and> - i \<le> int (length xs) then Inr (xs ! nat (int (length xs) + i))
      else Inl IndexError)"

text \<open>A list comprehension whose elements may raise: the first exception wins.\<close>

fun collect :: "(error + 'a) list \<Rightarrow> error + 'a list" where
  "collect [] = Inr []"
| "collect (Inl e # _) = Inl e"
| "collect (Inr x # rest) = (case collect rest of Inl e \<Rightarrow> Inl e | Inr xs \<Rightarrow> Inr (x # xs))"

section \<open>Preprocessing\<close>

text \<open>\<^verbatim>\<open>np.amax(np.dstack((screen[:,:,0], screen[:,:,1])), axis=2)\<close>: the pixel-wise
  maximum of the two channels, on unsigned bytes.\<close>

definition screen_Gray_max :: "screen \<Rightarrow> frame" where
  "screen_Gray_max sc = map2 (map2 max) (fst sc) (snd sc)"

definition preproc_state :: "('e, 'p, 'b) collab \<Rightarrow> screen \<Rightarrow> tile" where
  "preproc_state ops sc =
     map (map (\<lambda>v. v / 255))
       (resize ops (map (map (\<lambda>w. real (unat w))) (screen_Gray_max sc)))"

section \<open>Exploration rate and parameter sync\<close>

definition EPS_BASE :: real where
  "EPS_BASE = 0.4"

definition EPS_ALPHA :: real where
  "EPS_ALPHA = 7.0"

text \<open>Lines 97 to 100 of \<^verbatim>\<open>run\<close>; \<^verbatim>\<open>**\<close> on floats is \<open>powr\<close>.\<close>

definition exploration_rate :: "config \<Rightarrow> real" where
  "exploration_rate cfg =
     (if num_total_actors cfg = 1 then EPS_BASE
      else EPS_BASE powr
        (1.0 + (real_of_int (actor_no cfg) - 1.0) /
               (real_of_int (num_total_actors cfg) - 1.0) * EPS_ALPHA))"

text \<open>\<^verbatim>\<open>_pull_params\<close>, given what \<^verbatim>\<open>self._connect.get('params')\<close> returned.\<close>

definition pull_params :: "('e, 'p, 'b) collab \<Rightarrow> 'b option \<Rightarrow> 'p \<Rightarrow> 'p" where
  "pull_params ops params pol =
     (case params of None \<Rightarrow> pol | Some blob \<Rightarrow> loads ops blob)"

section \<open>The local replay memory\<close>

text \<open>
  Modelled from the spec: the class \<^verbatim>\<open>replay_memory.ReplayMemory\<close> (its
  \<^verbatim>\<open>push\<close>, \<^verbatim>\<open>sample\<close>, \<^verbatim>\<open>clear\<close> and \<^verbatim>\<open>__len__\<close>) is not among the
  sources. The spec describes a bounded queue of finalized transitions of capacity C,
  from which a sample of exactly B transitions is drawn uniformly and which is emptied
  as a whole. The capacity is the constructor argument of line 52. The spec does not
  say what a push into a full queue does; the oldest entry is dropped here.
  A sample is drawn without replacement, each choice taken from a raw random draw;
  a sample that the buffer cannot supply is a ValueError.
\<close>

definition capacity :: nat where
  "capacity = 1000"

definition push :: "'a \<Rightarrow> 'a list \<Rightarrow> 'a list" where
  "push x mem = (if length mem < capacity then mem @ [x] else tl mem @ [x])"

fun sample_from :: "'a list \<Rightarrow> nat \<Rightarrow> nat list \<Rightarrow> 'a list" where
  "sample_from xs 0 rs = []"
| "sample_from xs (Suc k) rs =
     (let i = (case rs of [] \<Rightarrow> 0 | r # _ \<Rightarrow> r) mod length xs
      in xs ! i # sample_from (take i xs @ drop (Suc i) xs) k (tl rs))"

definition sample :: "'a list \<Rightarrow> int \<Rightarrow> nat list \<Rightarrow> error + 'a list" where
  "sample mem b rs =
     (if 0 \<le> b \<and> b \<le> int (length mem) then Inr (sample_from mem (nat b) rs)
      else Inl ValueError)"

definition clear :: "'a list \<Rightarrow> 'a list" where
  "clear mem = []"

section \<open>Episode reset\<close>

definition no_op_steps :: int where
  "no_op_steps = 30"

text \<open>\<^verbatim>\<open>np.random.randint(low, high)\<close>: an integer of the half-open interval from
  \<open>low\<close> up to, and not including, \<open>high\<close>, chosen by the raw draw \<open>r\<close>; numpy
  raises a ValueError when the interval is empty.\<close>

definition randint :: "int \<Rightarrow> int \<Rightarrow> nat \<Rightarrow> error + int" where
  "randint low high r =
     (if low < high then Inr (low + int (r mod nat (high - low))) else Inl ValueError)"

text \<open>\<^verbatim>\<open>_initialize\<close>, on the frame stack \<open>buf\<close> of bound \<open>k\<close>: the result is the
  environment after the no-op steps and the frame stack.\<close>

definition initialize ::
  "('e, 'p, 'b) collab \<Rightarrow> nat \<Rightarrow> nat \<Rightarrow> 'e \<Rightarrow> tile list \<Rightarrow> error + ('e \<times> tile list)" where
  "initialize ops k r e buf =
     (let e1 = env_reset ops e;
          nx_st_gray = getScreenGrayscale ops e1;
          nx_screen = (nx_st_gray, nx_st_gray);
          buf' = ((\<lambda>b. deque_append k b (preproc_state ops nx_screen)) ^^ k) buf
      in case randint 1 no_op_steps r of
           Inl err \<Rightarrow> Inl err
         | Inr n \<Rightarrow> Inr (((\<lambda>e'. fst (env_step ops e' 0)) ^^ nat n) e1, buf'))"

text \<open>\<^verbatim>\<open>reset\<close>: the frame stack is cleared, then initialised.\<close>

definition reset ::
  "('e, 'p, 'b) collab \<Rightarrow> nat \<Rightarrow> nat \<Rightarrow> 'e \<Rightarrow> tile list \<Rightarrow> error + ('e \<times> tile list)" where
  "reset ops k r e buf = initialize ops k r e []"

section \<open>One decision step\<close>

text \<open>The loop \<^verbatim>\<open>for i in range(4)\<close> of lines 109 to 117, over the variables
  \<^verbatim>\<open>self._env\<close>, \<^verbatim>\<open>reward\<close>, \<^verbatim>\<open>done\<close>, \<^verbatim>\<open>screen_temp\<close> and
  \<^verbatim>\<open>length_epsiode\<close>.\<close>

fun sub_steps ::
  "('e, 'p, 'b) collab \<Rightarrow> nat \<Rightarrow> nat list \<Rightarrow> 'e \<times> real \<times> bool \<times> screen \<times> nat \<Rightarrow>
     'e \<times> real \<times> bool \<times> screen \<times> nat" where
  "sub_steps ops a [] acc = acc"
| "sub_steps ops a (i # rest) (e, rw, d, sc, len) =
     (let (e', curr_reward, d') = env_step ops e a;
          next_grayscreen = getScreenGrayscale ops e';
          sc1 = (if i = 2 then (next_grayscreen, snd sc) else sc);
          sc2 = (if i = 3 then (fst sc1, next_grayscreen) else sc1)
      in sub_steps ops a rest (e', rw + curr_reward, d', sc2, len + 1))"

definition frame_repeat ::
  "('e, 'p, 'b) collab \<Rightarrow> nat \<Rightarrow> 'e \<times> real \<times> bool \<times> screen \<times> nat \<Rightarrow>
     'e \<times> real \<times> bool \<times> screen \<times> nat" where
  "frame_repeat ops a acc = sub_steps ops a [0..<4] acc"

text \<open>Line 91: the powers of the discount, from exponent 0 to \<open>nstep_return\<close>.\<close>

definition gamma_nsteps :: "config \<Rightarrow> real list" where
  "gamma_nsteps cfg = map (\<lambda>i. gamma cfg ^ i) [0..<nstep_return cfg + 1]"

text \<open>Line 127; Python's \<^verbatim>\<open>sum\<close> adds from the left, starting at 0.\<close>

definition r_nstep :: "real list \<Rightarrow> nat \<Rightarrow> transition list \<Rightarrow> error + real" where
  "r_nstep gn maxlen sb =
     (case collect (map (\<lambda>i.
              case py_index gn (- (int i + 2)) of
                Inl err \<Rightarrow> Inl err
              | Inr g \<Rightarrow> (case py_index sb (int i) of
                    Inl err \<Rightarrow> Inl err
                  | Inr tr \<Rightarrow> Inr (g * reward tr))) [0..<maxlen]) of
        Inl err \<Rightarrow> Inl err
      | Inr terms \<Rightarrow> Inr (foldl (+) 0 terms))"

text \<open>Lines 126 to 129: the aggregated transition goes to the local memory when the
  step window is full.\<close>

definition n_step_push ::
  "config \<Rightarrow> transition list \<Rightarrow> transition list \<Rightarrow> error + transition list" where
  "n_step_push cfg sb mem =
     (if length sb = nstep_return cfg then
        (case r_nstep (gamma_nsteps cfg) (nstep_return cfg) sb of
           Inl err \<Rightarrow> Inl err
         | Inr r \<Rightarrow>
            (case py_index sb 0 of
               Inl err \<Rightarrow> Inl err
             | Inr first \<Rightarrow>
                (case py_index sb (- 1) of
                   Inl err \<Rightarrow> Inl err
                 | Inr lst \<Rightarrow>
                    Inr (push \<lparr>state = state first, action = action first, reward = r,
                               next_state = next_state lst, done_flag = done_flag lst\<rparr> mem))))
      else Inr mem)"

text \<open>Lines 136 to 144: the result is the local memory and the records pushed so far.\<close>

definition publish ::
  "('e, 'p, 'b) collab \<Rightarrow> config \<Rightarrow> nat list \<Rightarrow> 'p \<Rightarrow> transition list \<Rightarrow>
     (transition list \<times> real list) list \<Rightarrow>
     error + (transition list \<times> (transition list \<times> real list) list)" where
  "publish ops cfg rs pol mem ex =
     (if int (length mem) \<ge> batch_size cfg then
        (case sample mem (batch_size cfg) rs of
           Inl err \<Rightarrow> Inl err
         | Inr samples \<Rightarrow>
            (case py_index (gamma_nsteps cfg) (- 1) of
               Inl err \<Rightarrow> Inl err
             | Inr g \<Rightarrow>
                Inr (clear mem, ex @ [(samples, calc_priorities ops pol samples g)])))
      else Inr (mem, ex))"

text \<open>Lines 146 and 147; \<^verbatim>\<open>t % 0\<close> raises.\<close>

definition sync ::
  "('e, 'p, 'b) collab \<Rightarrow> config \<Rightarrow> 'b option \<Rightarrow> nat \<Rightarrow> 'p \<Rightarrow> error + 'p" where
  "sync ops cfg params t pol =
     (if t > 0 then
        (if target_update cfg = 0 then Inl ZeroDivisionError
         else if int t mod target_update cfg = 0 then Inr (pull_params ops params pol)
         else Inr pol)
      else Inr pol)"

text \<open>Lines 104 to 117: the action is chosen and held for four environment steps. The
  variable \<^verbatim>\<open>done\<close> is unbound before the first sub-step assigns it; the inner
  loop starts from \<open>False\<close> in its place. The result is the action and the
  variables of the inner loop.\<close>

definition decide ::
  "('e, 'p, 'b) collab \<Rightarrow> 'b step_input \<Rightarrow> ('e, 'p) actor \<Rightarrow>
     nat \<times> 'e \<times> real \<times> bool \<times> screen \<times> nat" where
  "decide ops inp s =
     (let a = epsilon_greedy ops (cur_state s) (policy_net s) (eps s) (act_rnd inp)
      in (a, frame_repeat ops a (env s, 0, False, screen_temp0 inp, length_epsiode s)))"

text \<open>The body of \<^verbatim>\<open>for t in count()\<close>, lines 104 to 147.\<close>

definition step ::
  "('e, 'p, 'b) collab \<Rightarrow> config \<Rightarrow> 'b step_input \<Rightarrow> ('e, 'p) actor \<Rightarrow> error + ('e, 'p) actor" where
  "step ops cfg inp s =
     (let (a, e, rw, d, screen_temp, len) = decide ops inp s;
          buf = deque_append (buf_size cfg) (img_buf s) (preproc_state ops screen_temp);
          tr = \<lparr>state = cur_state s, action = a, reward = clip ops rw,
                next_state = buf, done_flag = d\<rparr>;
          sb = deque_append (nstep_return cfg) (step_buffer s) tr
      in case n_step_push cfg sb (local_memory s) of
           Inl err \<Rightarrow> Inl err
         | Inr mem \<Rightarrow>
            (case (if d \<or> len > 50000
                   then (case reset ops (buf_size cfg) (noop_rnd inp) e buf of
                           Inl err \<Rightarrow> Inl err
                         | Inr (e', buf') \<Rightarrow> Inr (e', buf', buf', n_episode s + 1, [], 0))
                   else Inr (e, buf, buf, n_episode s, sb, len)) of
               Inl err \<Rightarrow> Inl err
             | Inr (e2, buf2, st2, n2, sb2, len2) \<Rightarrow>
                (case publish ops cfg (sample_rnd inp) (policy_net s) mem (experience s) of
                   Inl err \<Rightarrow> Inl err
                 | Inr (mem2, ex2) \<Rightarrow>
                    (case sync ops cfg (store_params inp) (t_count s) (policy_net s) of
                       Inl err \<Rightarrow> Inl err
                     | Inr pol2 \<Rightarrow>
                        Inr (s\<lparr>env := e2, policy_net := pol2, img_buf := buf2,
                               local_memory := mem2, cur_state := st2, step_buffer := sb2,
                               length_epsiode := len2, n_episode := n2,
                               t_count := t_count s + 1, experience := ex2\<rparr>)))))"

text \<open>Lines 89 to 100: the state in which the loop starts, for a fresh actor.\<close>

definition run_init ::
  "('e, 'p, 'b) collab \<Rightarrow> config \<Rightarrow> nat \<Rightarrow> 'e \<Rightarrow> 'p \<Rightarrow> error + ('e, 'p) actor" where
  "run_init ops cfg r e pol =
     (case reset ops (buf_size cfg) r e [] of
        Inl err \<Rightarrow> Inl err
      | Inr (e', buf) \<Rightarrow>
         Inr \<lparr>env = e', policy_net = pol, img_buf = buf, local_memory = [],
              cur_state = buf, step_buffer = [], length_epsiode = 0, n_episode = 0,
              eps = exploration_rate cfg, t_count = 0, experience = []\<rparr>)"

text \<open>The loop never ends; \<open>run_loop\<close> runs one iteration for each element of the
  list of inputs and returns the state reached.\<close>

fun run_loop ::
  "('e, 'p, 'b) collab \<Rightarrow> config \<Rightarrow> 'b step_input list \<Rightarrow> ('e, 'p) actor \<Rightarrow>
     error + ('e, 'p) actor" where
  "run_loop ops cfg [] s = Inr s"
| "run_loop ops cfg (inp # inps) s =
     (case step ops cfg inp s of Inl err \<Rightarrow> Inl err | Inr s' \<Rightarrow> run_loop ops cfg inps s')"

definition run ::
  "('e, 'p, 'b) collab \<Rightarrow> config \<Rightarrow> nat \<Rightarrow> 'e \<Rightarrow> 'p \<Rightarrow> 'b step_input list \<Rightarrow>
     error + ('e, 'p) actor" where
  "run ops cfg r e pol inps =
     (case run_init ops cfg r e pol of Inl err \<Rightarrow> Inl err | Inr s0 \<Rightarrow> run_loop ops cfg inps s0)"

section \<open>The frame-stack invariant\<close>

text \<open>An image whose values are in the range of a byte, a tile whose values are in the
  unit interval, and a frame stack of \<open>k\<close> such tiles.\<close>

definition byte_range :: "real list list \<Rightarrow> bool" where
  "byte_range img = list_all (list_all (\<lambda>v. 0 \<le> v \<and> v \<le> 255)) img"

definition unit_pixels :: "tile \<Rightarrow> bool" where
  "unit_pixels img = list_all (list_all (\<lambda>v. 0 \<le> v \<and> v \<le> 1)) img"

definition frame_stack_ok :: "nat \<Rightarrow> tile list \<Rightarrow> bool" where
  "frame_stack_ok k buf = (length buf = k \<and> list_all unit_pixels buf)"

section \<open>A stub environment and the default configuration\<close>

text \<open>The defaults of \<^verbatim>\<open>Actor.__init__\<close> and of \<^verbatim>\<open>actor_node.py\<close>.\<close>

definition default_cfg :: config where
  "default_cfg = \<lparr>actor_no = 1, batch_size = 50, nstep_return = 3, gamma = 0.999,
     buf_size = 4, target_update = 200, num_total_actors = 4\<rparr>"

text \<open>A stub environment for concrete runs: its state counts the steps since the last
  reset, every step pays reward 5, the step taken from state 5 reports \<^verbatim>\<open>done\<close>, and
  the screen is one pixel showing the count. The other collaborators are the simplest
  ones: \<^verbatim>\<open>resize\<close> returns its argument, the action is the random draw, every
  priority is the discount handed over, and the default clipping is used.\<close>

definition stub_step :: "nat \<Rightarrow> nat \<Rightarrow> nat \<times> real \<times> bool" where
  "stub_step e a = (Suc e, 5, e = 5)"

definition stub_ops :: "(nat, nat, nat) collab" where
  "stub_ops = \<lparr>env_reset = (\<lambda>e. 0), env_step = stub_step,
     getScreenGrayscale = (\<lambda>e. [[of_nat e]]), resize = (\<lambda>img. img),
     epsilon_greedy = (\<lambda>st pol ep r. r),
     calc_priorities = (\<lambda>pol samples g. map (\<lambda>tr. g) samples),
     loads = (\<lambda>blob. blob), clip = (\<lambda>x. min (max (- 1) x) 1)\<rparr>"

definition stub_input :: "nat step_input" where
  "stub_input = \<lparr>act_rnd = 0, screen_temp0 = ([], []), noop_rnd = 0, sample_rnd = [],
     store_params = None\<rparr>"

text \<open>The state in which the loop starts on the stub environment, after two no-op steps.\<close>

definition stub_start :: "(nat, nat) actor" where
  "stub_start = \<lparr>env = 2, policy_net = 0, img_buf = replicate 4 [[0]], local_memory = [],
     cur_state = replicate 4 [[0]], step_buffer = [], length_epsiode = 0, n_episode = 0,
     eps = exploration_rate default_cfg, t_count = 0, experience = []\<rparr>"

text \<open>The state in which the loop starts after five no-op steps: the first sub-step of
  the next decision is the one that reports \<^verbatim>\<open>done\<close>.\<close>

definition stub_at_5 :: "(nat, nat) actor" where
  "stub_at_5 = stub_start\<lparr>env := 5\<rparr>"

text \<open>The raw transition that the decision taken in \<open>stub_at_5\<close> records: four rewards of 5
  clipped to 1, the frame stack with the new tile, and the flag of the fourth sub-step.\<close>

definition stub_transition :: transition where
  "stub_transition = \<lparr>state = replicate 4 [[0]], action = 0, reward = 1,
     next_state = [[[0]], [[0]], [[0]], [[9 / 255]]], done_flag = False\<rparr>"

text \<open>The state after that decision under the default configuration: no reset has taken
  place.\<close>

definition stub_at_9 :: "(nat, nat) actor" where
  "stub_at_9 = \<lparr>env = 9, policy_net = 0, img_buf = [[[0]], [[0]], [[0]], [[9 / 255]]],
     local_memory = [], cur_state = [[[0]], [[0]], [[0]], [[9 / 255]]],
     step_buffer = [stub_transition], length_epsiode = 4, n_episode = 0,
     eps = exploration_rate default_cfg, t_count = 1, experience = []\<rparr>"

text \<open>A raw transition that carries only a reward.\<close>

definition tr_of :: "real \<Rightarrow> transition" where
  "tr_of r = \<lparr>state = [], action = 0, reward = r, next_state = [], done_flag = False\<rparr>"

section \<open>Facts about the containers and the discount table\<close>

lemma length_deque_append_full:
  "length xs = m \<Longrightarrow> length (deque_append m xs x) = m"
  by (simp add: deque_append_def)

lemma length_deque_append_le:
  "length xs \<le> m \<Longrightarrow> length (deque_append m xs x) \<le> m"
  by (auto simp: deque_append_def)

lemma deque_append_below:
  "length xs < m \<Longrightarrow> deque_append m xs x = xs @ [x]"
  by (simp add: deque_append_def)

lemma funpow_deque_append:
  "j \<le> m \<Longrightarrow> ((\<lambda>b. deque_append m b x) ^^ j) [] = replicate j x"
proof (induction j)
  case 0
  then show ?case by simp
next
  case (Suc j)
  then have "deque_append m (replicate j x) x = replicate j x @ [x]"
    by (simp add: deque_append_below)
  with Suc show ?case by (simp add: replicate_append_same)
qed

lemma set_deque_append: "set (deque_append m xs x) \<subseteq> insert x (set xs)"
  by (cases xs) (auto simp: deque_append_def)

lemma collect_map_Inr: "collect (map (\<lambda>i. Inr (f i)) xs) = Inr (map f xs)"
  by (induction xs) simp_all

lemma foldl_plus_sum_list: "foldl (+) (a::real) xs = a + sum_list xs"
  by (induction xs arbitrary: a) (simp_all add: add.assoc)

lemma py_index_nat: "i < length xs \<Longrightarrow> py_index xs (int i) = Inr (xs ! i)"
  by (simp add: py_index_def)

lemma py_index_neg:
  "i < 0 \<Longrightarrow> - i \<le> int (length xs) \<Longrightarrow> py_index xs i = Inr (xs ! nat (int (length xs) + i))"
  by (simp add: py_index_def)

lemma length_gamma_nsteps: "length (gamma_nsteps cfg) = Suc (nstep_return cfg)"
  by (simp add: gamma_nsteps_def)

lemma nth_gamma_nsteps: "j \<le> nstep_return cfg \<Longrightarrow> gamma_nsteps cfg ! j = gamma cfg ^ j"
  unfolding gamma_nsteps_def by (subst nth_map) (simp_all del: upt_Suc)

lemma gamma_term:
  assumes "i < nstep_return cfg"
  shows "py_index (gamma_nsteps cfg) (- (int i + 2)) = Inr (gamma cfg ^ (nstep_return cfg - 1 - i))"
proof -
  have "py_index (gamma_nsteps cfg) (- (int i + 2)) =
      Inr (gamma_nsteps cfg ! nat (int (length (gamma_nsteps cfg)) + - (int i + 2)))"
    using assms by (intro py_index_neg) (simp_all add: length_gamma_nsteps)
  moreover have "nat (int (length (gamma_nsteps cfg)) + - (int i + 2)) = nstep_return cfg - 1 - i"
    using assms by (simp add: length_gamma_nsteps)
  ultimately show ?thesis by (simp add: nth_gamma_nsteps)
qed

lemma r_nstep_sum:
  assumes "length sb = nstep_return cfg"
  shows "r_nstep (gamma_nsteps cfg) (nstep_return cfg) sb =
     Inr (\<Sum>i<nstep_return cfg. gamma cfg ^ (nstep_return cfg - 1 - i) * reward (sb ! i))"
proof -
  let ?n = "nstep_return cfg"
  let ?f = "\<lambda>i. gamma cfg ^ (?n - 1 - i) * reward (sb ! i)"
  have "map (\<lambda>i. case py_index (gamma_nsteps cfg) (- (int i + 2)) of
                Inl err \<Rightarrow> Inl err
              | Inr g \<Rightarrow> (case py_index sb (int i) of
                    Inl err \<Rightarrow> Inl err
                  | Inr tr \<Rightarrow> Inr (g * reward tr))) [0..<?n]
        = map (\<lambda>i. Inr (?f i)) [0..<?n]"
  proof (intro map_cong refl)
    fix i assume "i \<in> set [0..<?n]"
    then have i: "i < ?n" by simp
    then have "py_index sb (int i) = Inr (sb ! i)"
      using assms by (simp add: py_index_nat)
    with gamma_term [OF i] show "(case py_index (gamma_nsteps cfg) (- (int i + 2)) of
                Inl err \<Rightarrow> Inl err
              | Inr g \<Rightarrow> (case py_index sb (int i) of
                    Inl err \<Rightarrow> Inl err
                  | Inr tr \<Rightarrow> Inr (g * reward tr))) = Inr (?f i)"
      by (simp only: sum.case)
  qed
  then have "r_nstep (gamma_nsteps cfg) ?n sb = Inr (foldl (+) 0 (map ?f [0..<?n]))"
    unfolding r_nstep_def by (simp only: collect_map_Inr sum.case)
  also have "foldl (+) 0 (map ?f [0..<?n]) = (\<Sum>i<?n. ?f i)"
    by (simp add: foldl_plus_sum_list sum_list_sum_nth atLeast0LessThan)
  finally show ?thesis .
qed

lemma gamma_last: "py_index (gamma_nsteps cfg) (- 1) = Inr (gamma cfg ^ nstep_return cfg)"
proof -
  have "py_index (gamma_nsteps cfg) (- 1) =
      Inr (gamma_nsteps cfg ! nat (int (length (gamma_nsteps cfg)) + - 1))"
    by (intro py_index_neg) (simp_all add: length_gamma_nsteps)
  then show ?thesis by (simp add: length_gamma_nsteps nth_gamma_nsteps)
qed

lemma length_sample_from: "length (sample_from xs k rs) = k"
  by (induction k arbitrary: xs rs) (simp_all add: Let_def)

lemma mset_sample_from_all: "k = length xs \<Longrightarrow> mset (sample_from xs k rs) = mset xs"
proof (induction k arbitrary: xs rs)
  case 0
  then show ?case by simp
next
  case (Suc k)
  define i where "i = (case rs of [] \<Rightarrow> 0 | r # _ \<Rightarrow> r) mod length xs"
  from Suc.prems have "0 < length xs" by auto
  then have i: "i < length xs" by (simp add: i_def)
  let ?ys = "take i xs @ drop (Suc i) xs"
  from i Suc.prems have "k = length ?ys" by simp
  then have "mset (sample_from ?ys k (tl rs)) = mset ?ys" by (rule Suc.IH)
  moreover have "mset xs = add_mset (xs ! i) (mset ?ys)"
    using i by (metis id_take_nth_drop mset.simps(2) mset_append union_mset_add_mset_right)
  ultimately show ?case by (simp add: Let_def i_def)
qed

lemma set_sample_from: "k \<le> length xs \<Longrightarrow> set (sample_from xs k rs) \<subseteq> set xs"
proof (induction k arbitrary: xs rs)
  case 0
  then show ?case by simp
next
  case (Suc k)
  define i where "i = (case rs of [] \<Rightarrow> 0 | r # _ \<Rightarrow> r) mod length xs"
  from Suc.prems have "0 < length xs" by auto
  then have i: "i < length xs" by (simp add: i_def)
  let ?ys = "take i xs @ drop (Suc i) xs"
  from i Suc.prems have "k \<le> length ?ys" by simp
  then have "set (sample_from ?ys k (tl rs)) \<subseteq> set ?ys" by (rule Suc.IH)
  moreover have "set ?ys \<subseteq> set xs"
    by (auto dest: in_set_takeD in_set_dropD)
  moreover have "xs ! i \<in> set xs" using i by simp
  ultimately show ?case by (auto simp: Let_def i_def)
qed

lemma deque_append_explicit:
  "deque_append m xs x =
     (if m = 0 then xs else if length xs < m then xs @ [x] else tl xs @ [x])"
  by (cases xs) (auto simp: deque_append_def)

lemma length_push_le: "length (push x m) \<le> Suc (length m)"
  by (simp add: push_def)

lemma mset_sample_from_subset:
  "k \<le> length xs \<Longrightarrow> mset (sample_from xs k rs) \<subseteq># mset xs"
proof (induction k arbitrary: xs rs)
  case 0
  then show ?case by simp
next
  case (Suc k)
  define i where "i = (case rs of [] \<Rightarrow> 0 | r # _ \<Rightarrow> r) mod length xs"
  from Suc.prems have "0 < length xs" by auto
  then have i: "i < length xs" by (simp add: i_def)
  let ?ys = "take i xs @ drop (Suc i) xs"
  from i Suc.prems have "k \<le> length ?ys" by simp
  then have "mset (sample_from ?ys k (tl rs)) \<subseteq># mset ?ys" by (rule Suc.IH)
  moreover have "mset xs = add_mset (xs ! i) (mset ?ys)"
    using i by (metis id_take_nth_drop mset.simps(2) mset_append union_mset_add_mset_right)
  ultimately show ?case by (simp add: Let_def i_def)
qed

lemma upt_4: "[0..<4] = [0, 1, 2, 3]"
  by (simp add: upt_rec)

section \<open>Parameter sync\<close>

text \<open>
  C8. A sync attempt that finds no value under the parameter key leaves the policy's
  parameters as they are; one that finds a value replaces them by the deserialized
  value, whatever they were before: the result does not depend on the old
  parameters, so nothing like a version or a staleness check stands in the way.
\<close>

theorem pull_params_absent_or_overwrite:
  "pull_params ops None pol = pol \<and>
   pull_params ops (Some blob) pol = loads ops blob \<and>
   pull_params ops (Some blob) pol = pull_params ops (Some blob) pol'"
  by (simp add: pull_params_def)

section \<open>The no-op warmup\<close>

text \<open>
  C5. The number of no-op steps of a reset is \<^verbatim>\<open>np.random.randint(1, 30)\<close>, which
  excludes its upper bound: whatever the random draw, the count is one of 1 to 29 and
  never 30.
\<close>

theorem noop_count_never_30:
  "randint 1 no_op_steps r = Inr (1 + int (r mod 29)) \<and>
   randint 1 no_op_steps r \<noteq> Inr 30"
proof -
  have "r mod 29 < 29" by simp
  then show ?thesis by (simp add: randint_def no_op_steps_def)
qed

lemma n_step_push_full:
  assumes "0 < nstep_return cfg" and "length sb = nstep_return cfg"
  shows "n_step_push cfg sb mem =
     Inr (push \<lparr>state = state (sb ! 0), action = action (sb ! 0),
                 reward = (\<Sum>i<nstep_return cfg.
                    gamma cfg ^ (nstep_return cfg - 1 - i) * reward (sb ! i)),
                 next_state = next_state (sb ! (nstep_return cfg - 1)),
                 done_flag = done_flag (sb ! (nstep_return cfg - 1))\<rparr> mem)"
proof -
  have first: "py_index sb 0 = Inr (sb ! 0)"
    using assms py_index_nat [of 0 sb] by simp
  have "py_index sb (- 1) = Inr (sb ! nat (int (length sb) + - 1))"
    using assms by (intro py_index_neg) simp_all
  moreover have "nat (int (length sb) + - 1) = nstep_return cfg - 1"
    using assms by simp
  ultimately have lst: "py_index sb (- 1) = Inr (sb ! (nstep_return cfg - 1))"
    by simp
  show ?thesis
    unfolding n_step_push_def using assms(2)
    by (simp add: r_nstep_sum [OF assms(2)] first lst)
qed

section \<open>Reset, and the iterations that succeed\<close>

lemma randint_noop: "randint 1 no_op_steps r = Inr (1 + int (r mod 29))"
  by (simp add: randint_def no_op_steps_def)

lemma reset_eq:
  "reset ops k r e buf =
     Inr (((\<lambda>e'. fst (env_step ops e' 0)) ^^ Suc (r mod 29)) (env_reset ops e),
          replicate k (preproc_state ops (getScreenGrayscale ops (env_reset ops e),
                                          getScreenGrayscale ops (env_reset ops e))))"
proof -
  have "nat (1 + int (r mod 29)) = Suc (r mod 29)" by simp
  then show ?thesis
    unfolding reset_def initialize_def Let_def randint_noop
    by (simp only: funpow_deque_append [OF order_refl] sum.case)
qed

lemma n_step_push_total:
  assumes "0 < nstep_return cfg"
  shows "\<exists>mem'. n_step_push cfg sb mem = Inr mem'"
proof (cases "length sb = nstep_return cfg")
  case True
  from n_step_push_full [OF assms True] show ?thesis by blast
next
  case False
  then show ?thesis by (simp add: n_step_push_def)
qed

lemma publish_total:
  assumes "0 \<le> batch_size cfg"
  shows "\<exists>res. publish ops cfg rs pol mem ex = Inr res"
  using assms by (simp add: publish_def sample_def gamma_last)

lemma sync_total:
  assumes "target_update cfg \<noteq> 0"
  shows "\<exists>pol'. sync ops cfg params t pol = Inr pol'"
  using assms by (simp add: sync_def)

lemma step_total:
  assumes "0 < nstep_return cfg" and "0 \<le> batch_size cfg" and "target_update cfg \<noteq> 0"
  shows "\<exists>s'. step ops cfg inp s = Inr s'"
proof -
  obtain a e rw d sc len where dec: "decide ops inp s = (a, e, rw, d, sc, len)"
    by (metis prod_cases3)
  define buf where "buf = deque_append (buf_size cfg) (img_buf s) (preproc_state ops sc)"
  define sb where "sb = deque_append (nstep_return cfg) (step_buffer s)
     \<lparr>state = cur_state s, action = a, reward = clip ops rw, next_state = buf, done_flag = d\<rparr>"
  obtain mem where mem: "n_step_push cfg sb (local_memory s) = Inr mem"
    using n_step_push_total [OF assms(1), of sb "local_memory s"] by blast
  obtain mem2 ex2 where pub:
    "publish ops cfg (sample_rnd inp) (policy_net s) mem (experience s) = Inr (mem2, ex2)"
    using publish_total [OF assms(2), of ops "sample_rnd inp" "policy_net s" mem "experience s"]
    by (metis surj_pair)
  obtain pol2 where syn:
    "sync ops cfg (store_params inp) (t_count s) (policy_net s) = Inr pol2"
    using sync_total [OF assms(3), of ops "store_params inp" "t_count s" "policy_net s"]
    by blast
  show ?thesis
    unfolding step_def dec Let_def reset_eq
    using mem pub syn by (simp add: buf_def [symmetric] sb_def [symmetric])
qed

lemma run_loop_total:
  assumes "0 < nstep_return cfg" and "0 \<le> batch_size cfg" and "target_update cfg \<noteq> 0"
  shows "\<exists>s'. run_loop ops cfg inps s = Inr s'"
proof (induction inps arbitrary: s)
  case Nil
  then show ?case by simp
next
  case (Cons inp inps)
  obtain s1 where "step ops cfg inp s = Inr s1"
    using step_total [OF assms] by blast
  with Cons.IH [of s1] show ?case by simp
qed

lemma run_init_eq:
  "run_init ops cfg r e pol =
     Inr \<lparr>env = ((\<lambda>e'. fst (env_step ops e' 0)) ^^ Suc (r mod 29)) (env_reset ops e),
          policy_net = pol,
          img_buf = replicate (buf_size cfg)
            (preproc_state ops (getScreenGrayscale ops (env_reset ops e),
                                getScreenGrayscale ops (env_reset ops e))),
          local_memory = [],
          cur_state = replicate (buf_size cfg)
            (preproc_state ops (getScreenGrayscale ops (env_reset ops e),
                                getScreenGrayscale ops (env_reset ops e))),
          step_buffer = [], length_epsiode = 0, n_episode = 0,
          eps = exploration_rate cfg, t_count = 0, experience = []\<rparr>"
  by (simp add: run_init_def reset_eq)

lemma run_total:
  assumes "0 < nstep_return cfg" and "0 \<le> batch_size cfg" and "target_update cfg \<noteq> 0"
  shows "\<exists>s. run ops cfg r e pol inps = Inr s"
  using run_loop_total [OF assms] by (simp add: run_def run_init_eq)

lemma stub_start_init: "run_init stub_ops default_cfg 1 0 0 = Inr stub_start"
  by (simp add: run_init_eq stub_start_def stub_ops_def stub_step_def default_cfg_def
      preproc_state_def screen_Gray_max_def numeral_2_eq_2)

lemma step_branches:
  assumes "step ops cfg inp s = Inr s'"
  shows "(let (a, e, rw, d, sc, len) = decide ops inp s;
              buf = deque_append (buf_size cfg) (img_buf s) (preproc_state ops sc);
              tr = \<lparr>state = cur_state s, action = a, reward = clip ops rw,
                    next_state = buf, done_flag = d\<rparr>;
              e0 = env_reset ops e;
              g0 = getScreenGrayscale ops e0
          in len = length_epsiode s + 4 \<and>
             (if d \<or> len > 50000
              then img_buf s' = replicate (buf_size cfg) (preproc_state ops (g0, g0)) \<and>
                   cur_state s' = img_buf s' \<and> step_buffer s' = [] \<and>
                   env s' = ((\<lambda>e'. fst (env_step ops e' 0)) ^^ Suc (noop_rnd inp mod 29)) e0 \<and>
                   length_epsiode s' = 0 \<and> n_episode s' = n_episode s + 1
              else img_buf s' = buf \<and> cur_state s' = buf \<and>
                   step_buffer s' = deque_append (nstep_return cfg) (step_buffer s) tr \<and>
                   env s' = e \<and> length_epsiode s' = len \<and> n_episode s' = n_episode s))"
proof -
  obtain a e rw d sc len where dec: "decide ops inp s = (a, e, rw, d, sc, len)"
    by (metis prod_cases3)
  have len: "len = length_epsiode s + 4"
    using dec
    by (simp add: decide_def frame_repeat_def upt_4 Let_def split: prod.splits)
  show ?thesis
    using assms len unfolding step_def dec Let_def reset_eq
    by (auto split: sum.splits prod.splits if_splits)
qed

section \<open>The exploration rate\<close>

lemma step_eps: "step ops cfg inp s = Inr s' \<Longrightarrow> eps s' = eps s"
  by (auto simp: step_def Let_def split: prod.splits sum.splits if_splits)

lemma run_loop_eps: "run_loop ops cfg inps s = Inr s' \<Longrightarrow> eps s' = eps s"
proof (induction inps arbitrary: s)
  case Nil
  then show ?case by simp
next
  case (Cons inp inps)
  then show ?case by (auto split: sum.splits dest: step_eps)
qed

lemma run_eps: "run ops cfg r e pol inps = Inr s \<Longrightarrow> eps s = exploration_rate cfg"
  by (auto simp: run_def run_init_eq dest: run_loop_eps)

lemma exploration_rate_4_1:
  "num_total_actors cfg = 4 \<Longrightarrow> actor_no cfg = 1 \<Longrightarrow> exploration_rate cfg = 0.4"
  by (simp add: exploration_rate_def EPS_BASE_def)

lemma exploration_rate_4_4:
  "num_total_actors cfg = 4 \<Longrightarrow> actor_no cfg = 4 \<Longrightarrow> exploration_rate cfg = 0.4 ^ 8"
  by (simp add: exploration_rate_def EPS_BASE_def EPS_ALPHA_def)

text \<open>
  C3. The exploration rate is computed once, before the loop: it is 0.4 when there is
  one actor, and 0.4 to the power \<open>1 + (actor_no - 1) / (num_total_actors - 1) * 7\<close>
  otherwise; with four actors, actor 1 has rate 0.4 and actor 4 has rate \<open>0.4 ^ 8\<close>.
  No iteration of the loop changes it: in every state the run reaches, \<open>eps\<close> is
  that value. (Floats are idealised as reals.)
\<close>

theorem exploration_rate_fixed:
  assumes "run ops cfg r e pol inps = Inr s"
  shows "eps s = exploration_rate cfg \<and>
    exploration_rate cfg =
      (if num_total_actors cfg = 1 then 0.4
       else 0.4 powr (1 + (real_of_int (actor_no cfg) - 1) /
                          (real_of_int (num_total_actors cfg) - 1) * 7)) \<and>
    (num_total_actors cfg = 4 \<and> actor_no cfg = 1 \<longrightarrow> exploration_rate cfg = 0.4) \<and>
    (num_total_actors cfg = 4 \<and> actor_no cfg = 4 \<longrightarrow> exploration_rate cfg = 0.4 ^ 8)"
  using run_eps [OF assms] exploration_rate_4_1 [of cfg] exploration_rate_4_4 [of cfg]
  by (simp add: exploration_rate_def EPS_BASE_def EPS_ALPHA_def)

theorem exploration_rate_fixed_witness:
  "\<exists>s. run stub_ops (default_cfg\<lparr>actor_no := 4\<rparr>) 1 0 0 [stub_input, stub_input] = Inr s \<and>
     eps s = 0.4 ^ 8"
proof -
  obtain s where s: "run stub_ops (default_cfg\<lparr>actor_no := 4\<rparr>) 1 0 0 [stub_input, stub_input] = Inr s"
    using run_total [of "default_cfg\<lparr>actor_no := 4\<rparr>" stub_ops 1 0 0 "[stub_input, stub_input]"]
    by (auto simp: default_cfg_def)
  from exploration_rate_fixed [OF s] s show ?thesis
    by (auto simp: default_cfg_def)
qed

section \<open>Tiles in the unit interval\<close>

lemma byte_of_word: "0 \<le> real (unat (w :: 8 word)) \<and> real (unat w) \<le> 255"
proof -
  have "unat w < 2 ^ LENGTH(8)" by (rule unsigned_less)
  then have "unat w \<le> 255" by simp
  then have "real (unat w) \<le> real 255" by (simp only: of_nat_le_iff)
  then show ?thesis by (simp del: of_nat_unat)
qed

lemma byte_range_frame: "byte_range (map (map (\<lambda>w :: 8 word. real (unat w))) fr)"
  unfolding byte_range_def list_all_iff using byte_of_word by (auto simp del: of_nat_unat)

lemma unit_pixels_scaled: "byte_range img \<Longrightarrow> unit_pixels (map (map (\<lambda>v. v / 255)) img)"
  by (auto simp: byte_range_def unit_pixels_def list_all_iff)

lemma unit_pixels_preproc:
  assumes "\<forall>img. byte_range img \<longrightarrow> byte_range (resize ops img)"
  shows "unit_pixels (preproc_state ops sc)"
  unfolding preproc_state_def using assms byte_range_frame
  by (intro unit_pixels_scaled) blast

lemma frame_stack_ok_replicate: "unit_pixels x \<Longrightarrow> frame_stack_ok k (replicate k x)"
  by (simp add: frame_stack_ok_def list_all_iff)

lemma frame_stack_ok_append:
  assumes "frame_stack_ok k buf" and "unit_pixels x"
  shows "frame_stack_ok k (deque_append k buf x)"
proof -
  have "set (deque_append k buf x) \<subseteq> insert x (set buf)" by (rule set_deque_append)
  with assms show ?thesis
    by (auto simp: frame_stack_ok_def list_all_iff length_deque_append_full)
qed

lemma step_frame_stack:
  assumes res: "\<forall>img. byte_range img \<longrightarrow> byte_range (resize ops img)"
    and ok: "frame_stack_ok (buf_size cfg) (img_buf s)"
    and st: "step ops cfg inp s = Inr s'"
  shows "frame_stack_ok (buf_size cfg) (img_buf s') \<and> cur_state s' = img_buf s'"
proof -
  obtain a e rw d sc len where dec: "decide ops inp s = (a, e, rw, d, sc, len)"
    by (metis prod_cases3)
  have tile: "\<And>sc'. unit_pixels (preproc_state ops sc')"
    using res by (rule unit_pixels_preproc)
  have app: "frame_stack_ok (buf_size cfg)
      (deque_append (buf_size cfg) (img_buf s) (preproc_state ops sc))"
    using ok tile by (rule frame_stack_ok_append)
  have rep: "\<And>sc'. frame_stack_ok (buf_size cfg) (replicate (buf_size cfg) (preproc_state ops sc'))"
    using tile by (rule frame_stack_ok_replicate)
  from step_branches [OF st] show ?thesis
    unfolding dec Let_def using app rep by (auto split: if_splits)
qed

lemma run_loop_frame_stack:
  assumes res: "\<forall>img. byte_range img \<longrightarrow> byte_range (resize ops img)"
  shows "frame_stack_ok (buf_size cfg) (img_buf s) \<Longrightarrow> cur_state s = img_buf s \<Longrightarrow>
     run_loop ops cfg inps s = Inr s' \<Longrightarrow>
     frame_stack_ok (buf_size cfg) (img_buf s') \<and> cur_state s' = img_buf s'"
proof (induction inps arbitrary: s)
  case Nil
  then show ?case by simp
next
  case (Cons inp inps)
  from Cons.prems(3) obtain s1 where s1: "step ops cfg inp s = Inr s1"
    and rest: "run_loop ops cfg inps s1 = Inr s'"
    by (auto split: sum.splits)
  from step_frame_stack [OF res Cons.prems(1) s1] Cons.IH [OF _ _ rest]
  show ?case by blast
qed

lemma run_frame_stack:
  assumes "\<forall>img. byte_range img \<longrightarrow> byte_range (resize ops img)"
    and "run ops cfg r e pol inps = Inr s"
  shows "frame_stack_ok (buf_size cfg) (img_buf s) \<and> cur_state s = img_buf s"
proof -
  let ?s0 = "\<lparr>env = ((\<lambda>e'. fst (env_step ops e' 0)) ^^ Suc (r mod 29)) (env_reset ops e),
          policy_net = pol,
          img_buf = replicate (buf_size cfg)
            (preproc_state ops (getScreenGrayscale ops (env_reset ops e),
                                getScreenGrayscale ops (env_reset ops e))),
          local_memory = [],
          cur_state = replicate (buf_size cfg)
            (preproc_state ops (getScreenGrayscale ops (env_reset ops e),
                                getScreenGrayscale ops (env_reset ops e))),
          step_buffer = [], length_epsiode = 0, n_episode = 0,
          eps = exploration_rate cfg, t_count = 0, experience = []\<rparr>"
  have loop: "run_loop ops cfg inps ?s0 = Inr s"
    using assms(2) by (simp add: run_def run_init_eq)
  have "frame_stack_ok (buf_size cfg) (img_buf ?s0)"
    using unit_pixels_preproc [OF assms(1)] by (simp add: frame_stack_ok_replicate)
  moreover have "cur_state ?s0 = img_buf ?s0" by simp
  ultimately show ?thesis
    using loop by (rule run_loop_frame_stack [OF assms(1)])
qed

text \<open>
  C6. In every state the loop reaches after initialization, the frame stack holds
  exactly \<open>buf_size\<close> tiles, every value of every tile lies between 0 and 1, and the
  state handed to the next decision is this full stack; so no decision sees a stack
  that is partially filled. The bound on the values rests on what \<^verbatim>\<open>resize\<close> is
  called for: with \<^verbatim>\<open>preserve_range=True\<close> it returns values in the range of its
  input, here the range of a byte.
\<close>

theorem frame_stack_full_and_unit:
  assumes "\<forall>img. byte_range img \<longrightarrow> byte_range (resize ops img)"
    and "run ops cfg r e pol inps = Inr s"
  shows "length (img_buf s) = buf_size cfg \<and>
     (\<forall>tile \<in> set (img_buf s). \<forall>row \<in> set tile. \<forall>v \<in> set row. 0 \<le> v \<and> v \<le> 1) \<and>
     cur_state s = img_buf s"
  using run_frame_stack [OF assms]
  by (auto simp: frame_stack_ok_def unit_pixels_def list_all_iff)

theorem frame_stack_full_and_unit_witness:
  "\<exists>s. run stub_ops default_cfg 1 0 0 [stub_input, stub_input] = Inr s \<and>
     length (img_buf s) = 4 \<and> list_all unit_pixels (img_buf s) \<and> cur_state s = img_buf s"
proof -
  have res: "\<forall>img. byte_range img \<longrightarrow> byte_range (resize stub_ops img)"
    by (simp add: stub_ops_def)
  obtain s where s: "run stub_ops default_cfg 1 0 0 [stub_input, stub_input] = Inr s"
    using run_total [of default_cfg stub_ops 1 0 0 "[stub_input, stub_input]"]
    by (auto simp: default_cfg_def)
  from frame_stack_full_and_unit [OF res s] s show ?thesis
    by (auto simp: default_cfg_def unit_pixels_def list_all_iff)
qed

section \<open>One iteration, unfolded\<close>

text \<open>The variables of the inner loop after its four rounds.\<close>

lemma decide_unfold:
  "decide ops inp s =
     (let a = epsilon_greedy ops (cur_state s) (policy_net s) (eps s) (act_rnd inp);
          (e1, r1, d1) = env_step ops (env s) a;
          (e2, r2, d2) = env_step ops e1 a;
          (e3, r3, d3) = env_step ops e2 a;
          (e4, r4, d4) = env_step ops e3 a
      in (a, e4, 0 + r1 + r2 + r3 + r4, d4,
          (getScreenGrayscale ops e3, getScreenGrayscale ops e4), length_epsiode s + 4))"
  by (simp add: decide_def frame_repeat_def upt_4 Let_def split: prod.splits)


text \<open>A property that holds at the start of the loop and that every iteration which
  succeeds preserves holds in every state a run reaches.\<close>

lemma run_loop_invariant:
  assumes pres: "\<And>inp s s'. P s \<Longrightarrow> step ops cfg inp s = Inr s' \<Longrightarrow> P s'"
  shows "P s \<Longrightarrow> run_loop ops cfg inps s = Inr s' \<Longrightarrow> P s'"
proof (induction inps arbitrary: s)
  case Nil
  then show ?case by simp
next
  case (Cons inp inps)
  from Cons.prems(2) obtain s1 where s1: "step ops cfg inp s = Inr s1"
    and rest: "run_loop ops cfg inps s1 = Inr s'"
    by (auto split: sum.splits)
  from pres [OF Cons.prems(1) s1] have "P s1" .
  then show ?case using rest by (rule Cons.IH)
qed

lemma run_invariant:
  assumes run: "run ops cfg r e pol inps = Inr s"
    and init: "\<And>s0. run_init ops cfg r e pol = Inr s0 \<Longrightarrow> P s0"
    and pres: "\<And>inp s s'. P s \<Longrightarrow> step ops cfg inp s = Inr s' \<Longrightarrow> P s'"
  shows "P s"
proof -
  from run obtain s0 where s0: "run_init ops cfg r e pol = Inr s0"
    and loop: "run_loop ops cfg inps s0 = Inr s"
    by (auto simp: run_def split: sum.splits)
  show ?thesis
  proof (rule run_loop_invariant [where P = P and ops = ops and cfg = cfg])
    show "\<And>inp s s'. P s \<Longrightarrow> step ops cfg inp s = Inr s' \<Longrightarrow> P s'"
      by (rule pres)
    show "P s0" using s0 by (rule init)
    show "run_loop ops cfg inps s0 = Inr s" by (rule loop)
  qed
qed


text \<open>What every state of a run satisfies: the frame stack is full, it is the state of
  the next decision, and the step window is within its bound.\<close>

lemma step_shape:
  assumes inv: "length (img_buf s) = buf_size cfg \<and> cur_state s = img_buf s \<and>
      length (step_buffer s) \<le> nstep_return cfg"
    and st: "step ops cfg inp s = Inr s'"
  shows "length (img_buf s') = buf_size cfg \<and> cur_state s' = img_buf s' \<and>
      length (step_buffer s') \<le> nstep_return cfg"
proof -
  obtain a e rw d sc len where dec: "decide ops inp s = (a, e, rw, d, sc, len)"
    by (metis prod_cases3)
  from inv have "length (deque_append (buf_size cfg) (img_buf s) (preproc_state ops sc)) =
      buf_size cfg"
    by (simp add: length_deque_append_full)
  moreover from inv have "\<And>tr. length (deque_append (nstep_return cfg) (step_buffer s) tr) \<le>
      nstep_return cfg"
    by (simp add: length_deque_append_le)
  ultimately show ?thesis
    using step_branches [OF st] unfolding dec Let_def
    by (auto split: if_splits)
qed

lemma run_shape:
  assumes "run ops cfg r e pol inps = Inr s"
  shows "length (img_buf s) = buf_size cfg \<and> cur_state s = img_buf s \<and>
      length (step_buffer s) \<le> nstep_return cfg"
  using assms
proof (rule run_invariant)
  fix s0 assume "run_init ops cfg r e pol = Inr s0"
  then show "length (img_buf s0) = buf_size cfg \<and> cur_state s0 = img_buf s0 \<and>
      length (step_buffer s0) \<le> nstep_return cfg"
    by (auto simp: run_init_eq)
next
  fix inp s s'
  assume "length (img_buf s) = buf_size cfg \<and> cur_state s = img_buf s \<and>
      length (step_buffer s) \<le> nstep_return cfg"
    and "step ops cfg inp s = Inr s'"
  then show "length (img_buf s') = buf_size cfg \<and> cur_state s' = img_buf s' \<and>
      length (step_buffer s') \<le> nstep_return cfg"
    by (rule step_shape)
qed


text \<open>The local memory and the queue after an iteration are those of the publish block,
  run on the memory that the n-step block returned.\<close>

lemma step_memory:
  assumes st: "step ops cfg inp s = Inr s'"
    and dec: "decide ops inp s = (a, e, rw, d, sc, len)"
  shows "\<exists>mem. n_step_push cfg
        (deque_append (nstep_return cfg) (step_buffer s)
           \<lparr>state = cur_state s, action = a, reward = clip ops rw,
            next_state = deque_append (buf_size cfg) (img_buf s) (preproc_state ops sc),
            done_flag = d\<rparr>) (local_memory s) = Inr mem \<and>
      publish ops cfg (sample_rnd inp) (policy_net s) mem (experience s) =
        Inr (local_memory s', experience s')"
  using st unfolding step_def dec Let_def reset_eq
  by (auto split: sum.splits prod.splits if_splits)

lemma n_step_push_empty_horizon: "nstep_return cfg = 0 \<Longrightarrow> n_step_push cfg [] mem = Inl IndexError"
  by (simp add: n_step_push_def r_nstep_def py_index_def)

lemma publish_explicit:
  assumes "publish ops cfg rs pol mem ex = Inr (mem', ex')"
  shows "(if batch_size cfg \<le> int (length mem)
          then 0 \<le> batch_size cfg \<and> mem' = [] \<and>
               ex' = ex @ [(sample_from mem (nat (batch_size cfg)) rs,
                            calc_priorities ops pol (sample_from mem (nat (batch_size cfg)) rs)
                              (gamma cfg ^ nstep_return cfg))]
          else mem' = mem \<and> ex' = ex)"
  using assms
  by (auto simp: publish_def sample_def gamma_last clear_def split: if_splits sum.splits)


text \<open>An iteration that succeeds from a state of this shape, with the calls of
  \<open>deque_append\<close>, \<open>n_step_push\<close> and \<open>publish\<close> replaced by what they return. The
  horizon is positive, since a window of bound 0 is always full and empty, and
  \<^verbatim>\<open>step_buffer[0]\<close> raises.\<close>

lemma step_unfolded:
  assumes inv: "length (img_buf s) = buf_size cfg \<and> cur_state s = img_buf s \<and>
      length (step_buffer s) \<le> nstep_return cfg"
    and st: "step ops cfg inp s = Inr s'"
    and dec: "decide ops inp s = (a, e, rw, d, sc, len)"
    and buf: "buf = (if buf_size cfg = 0 then [] else tl (img_buf s) @ [preproc_state ops sc])"
    and tr: "tr = \<lparr>state = cur_state s, action = a, reward = clip ops rw,
                   next_state = buf, done_flag = d\<rparr>"
    and w: "w = (if length (step_buffer s) < nstep_return cfg then step_buffer s @ [tr]
                 else tl (step_buffer s) @ [tr])"
    and agg: "agg = \<lparr>state = state (w ! 0), action = action (w ! 0),
                 reward = (\<Sum>i<nstep_return cfg.
                    gamma cfg ^ (nstep_return cfg - 1 - i) * reward (w ! i)),
                 next_state = next_state (w ! (nstep_return cfg - 1)),
                 done_flag = done_flag (w ! (nstep_return cfg - 1))\<rparr>"
    and mem: "mem = (if length w = nstep_return cfg then push agg (local_memory s)
                     else local_memory s)"
  shows "0 < nstep_return cfg"
    and "length w \<le> nstep_return cfg"
    and "if d \<or> len > 50000
         then img_buf s' = replicate (buf_size cfg)
                (preproc_state ops (getScreenGrayscale ops (env_reset ops e),
                                    getScreenGrayscale ops (env_reset ops e))) \<and>
              cur_state s' = img_buf s' \<and> step_buffer s' = [] \<and>
              env s' = ((\<lambda>e'. fst (env_step ops e' 0)) ^^ Suc (noop_rnd inp mod 29))
                         (env_reset ops e) \<and>
              length_epsiode s' = 0 \<and> n_episode s' = n_episode s + 1
         else img_buf s' = buf \<and> cur_state s' = buf \<and> step_buffer s' = w \<and>
              env s' = e \<and> length_epsiode s' = len \<and> n_episode s' = n_episode s"
    and "if batch_size cfg \<le> int (length mem)
         then 0 \<le> batch_size cfg \<and> local_memory s' = [] \<and>
              experience s' = experience s @
                [(sample_from mem (nat (batch_size cfg)) (sample_rnd inp),
                  calc_priorities ops (policy_net s)
                    (sample_from mem (nat (batch_size cfg)) (sample_rnd inp))
                    (gamma cfg ^ nstep_return cfg))]
         else local_memory s' = mem \<and> experience s' = experience s"
proof -
  from inv have len_img: "length (img_buf s) = buf_size cfg"
    and len_sb: "length (step_buffer s) \<le> nstep_return cfg"
    by simp_all
  have img: "deque_append (buf_size cfg) (img_buf s) (preproc_state ops sc) = buf"
    using len_img unfolding buf deque_append_explicit by auto
  from step_memory [OF st dec] obtain mem0 where
    push0: "n_step_push cfg (deque_append (nstep_return cfg) (step_buffer s) tr)
        (local_memory s) = Inr mem0"
    and pub0: "publish ops cfg (sample_rnd inp) (policy_net s) mem0 (experience s) =
        Inr (local_memory s', experience s')"
    unfolding img tr by blast
  show pos: "0 < nstep_return cfg"
  proof (rule ccontr)
    assume "\<not> 0 < nstep_return cfg"
    then have z: "nstep_return cfg = 0" by simp
    with len_sb have "step_buffer s = []" by simp
    then have "deque_append (nstep_return cfg) (step_buffer s) tr = []"
      by (simp add: z deque_append_def)
    with push0 n_step_push_empty_horizon [OF z, of "local_memory s"] show False by simp
  qed
  have win: "deque_append (nstep_return cfg) (step_buffer s) tr = w"
    using pos unfolding w deque_append_explicit by simp
  show "length w \<le> nstep_return cfg"
    using len_sb pos unfolding w by (cases "step_buffer s") auto
  have "mem0 = mem"
  proof (cases "length w = nstep_return cfg")
    case True
    from n_step_push_full [OF pos True, of "local_memory s"] push0
    show ?thesis unfolding win mem agg using True by simp
  next
    case False
    with push0 show ?thesis unfolding win mem by (simp add: n_step_push_def)
  qed
  with pub0 have "publish ops cfg (sample_rnd inp) (policy_net s) mem (experience s) =
        Inr (local_memory s', experience s')"
    by simp
  from publish_explicit [OF this]
  show "if batch_size cfg \<le> int (length mem)
         then 0 \<le> batch_size cfg \<and> local_memory s' = [] \<and>
              experience s' = experience s @
                [(sample_from mem (nat (batch_size cfg)) (sample_rnd inp),
                  calc_priorities ops (policy_net s)
                    (sample_from mem (nat (batch_size cfg)) (sample_rnd inp))
                    (gamma cfg ^ nstep_return cfg))]
         else local_memory s' = mem \<and> experience s' = experience s" .
  from step_branches [OF st]
  show "if d \<or> len > 50000
         then img_buf s' = replicate (buf_size cfg)
                (preproc_state ops (getScreenGrayscale ops (env_reset ops e),
                                    getScreenGrayscale ops (env_reset ops e))) \<and>
              cur_state s' = img_buf s' \<and> step_buffer s' = [] \<and>
              env s' = ((\<lambda>e'. fst (env_step ops e' 0)) ^^ Suc (noop_rnd inp mod 29))
                         (env_reset ops e) \<and>
              length_epsiode s' = 0 \<and> n_episode s' = n_episode s + 1
         else img_buf s' = buf \<and> cur_state s' = buf \<and> step_buffer s' = w \<and>
              env s' = e \<and> length_epsiode s' = len \<and> n_episode s' = n_episode s"
    unfolding dec Let_def prod.case img tr [symmetric] win by simp
qed


text \<open>With a batch size of at least 1 the local memory stays below the batch size
  from one iteration to the next.\<close>

lemma step_memory_below:
  assumes b: "1 \<le> batch_size cfg"
    and inv: "(length (img_buf s) = buf_size cfg \<and> cur_state s = img_buf s \<and>
      length (step_buffer s) \<le> nstep_return cfg) \<and>
      int (length (local_memory s)) < batch_size cfg"
    and st: "step ops cfg inp s = Inr s'"
  shows "(length (img_buf s') = buf_size cfg \<and> cur_state s' = img_buf s' \<and>
      length (step_buffer s') \<le> nstep_return cfg) \<and>
      int (length (local_memory s')) < batch_size cfg"
proof -
  from inv have shape: "length (img_buf s) = buf_size cfg \<and> cur_state s = img_buf s \<and>
      length (step_buffer s) \<le> nstep_return cfg"
    and below: "int (length (local_memory s)) < batch_size cfg"
    by simp_all
  obtain a e rw d sc len where dec: "decide ops inp s = (a, e, rw, d, sc, len)"
    by (metis prod_cases3)
  note U = step_unfolded [OF shape st dec refl refl refl refl refl]
  from U(4) b have "int (length (local_memory s')) < batch_size cfg"
    by (auto split: if_splits)
  with step_shape [OF shape st] show ?thesis by simp
qed

lemma run_memory_below:
  assumes b: "1 \<le> batch_size cfg" and run: "run ops cfg r e pol inps = Inr s"
  shows "int (length (local_memory s)) < batch_size cfg"
proof -
  have "(length (img_buf s) = buf_size cfg \<and> cur_state s = img_buf s \<and>
      length (step_buffer s) \<le> nstep_return cfg) \<and>
      int (length (local_memory s)) < batch_size cfg"
    using run
  proof (rule run_invariant)
    fix s0 assume "run_init ops cfg r e pol = Inr s0"
    then show "(length (img_buf s0) = buf_size cfg \<and> cur_state s0 = img_buf s0 \<and>
      length (step_buffer s0) \<le> nstep_return cfg) \<and>
      int (length (local_memory s0)) < batch_size cfg"
      using b by (auto simp: run_init_eq)
  next
    fix inp s s'
    assume "(length (img_buf s) = buf_size cfg \<and> cur_state s = img_buf s \<and>
      length (step_buffer s) \<le> nstep_return cfg) \<and>
      int (length (local_memory s)) < batch_size cfg"
      and "step ops cfg inp s = Inr s'"
    with b show "(length (img_buf s') = buf_size cfg \<and> cur_state s' = img_buf s' \<and>
      length (step_buffer s') \<le> nstep_return cfg) \<and>
      int (length (local_memory s')) < batch_size cfg"
      by (rule step_memory_below)
  qed
  then show ?thesis by simp
qed


text \<open>The third testable property of the spec: discount 0.999, horizon 3, window rewards
  1, 0, 0.\<close>

lemma n_step_push_example:
  "n_step_push default_cfg [tr_of 1, tr_of 0, tr_of 0] [] =
     Inr [\<lparr>state = [], action = 0, reward = 0.999 ^ 2 * 1 + 0.999 ^ 1 * 0 + 0.999 ^ 0 * 0,
           next_state = [], done_flag = False\<rparr>]"
proof -
  have n: "nstep_return default_cfg = 3" and g: "gamma default_cfg = 0.999"
    by (simp_all add: default_cfg_def)
  have h1: "0 < nstep_return default_cfg" by (simp add: n)
  have h2: "length [tr_of 1, tr_of 0, tr_of 0] = nstep_return default_cfg" by (simp add: n)
  have s: "{..<3::nat} = {0, 1, 2}" by auto
  show ?thesis
    using n_step_push_full [OF h1 h2, of "[]"]
    by (simp add: n g s tr_of_def push_def capacity_def)
qed

section \<open>Runs on the stub environment\<close>

lemma stub_noops: "((\<lambda>e'. fst (env_step stub_ops e' 0)) ^^ n) e = e + n"
  by (induction n) (simp_all add: stub_ops_def stub_step_def)

lemma stub_reset: "env_reset stub_ops e = 0"
  by (simp add: stub_ops_def)

lemma stub_first_tile:
  "preproc_state stub_ops (getScreenGrayscale stub_ops 0, getScreenGrayscale stub_ops 0) = [[0]]"
  by (simp add: stub_ops_def preproc_state_def screen_Gray_max_def)

lemma stub_at_5_init:
  assumes "buf_size cfg = 4" and "exploration_rate cfg = exploration_rate default_cfg"
  shows "run_init stub_ops cfg 4 0 0 = Inr stub_at_5"
  using assms unfolding run_init_eq stub_noops stub_reset stub_first_tile
  by (simp add: stub_at_5_def stub_start_def)

lemma stub_run_at_5:
  assumes "buf_size cfg = 4" and "exploration_rate cfg = exploration_rate default_cfg"
  shows "run stub_ops cfg 4 0 0 [] = Inr stub_at_5"
  by (simp add: run_def stub_at_5_init [OF assms])

lemma stub_run_start: "run stub_ops default_cfg 1 0 0 [] = Inr stub_start"
  unfolding run_def stub_start_init by simp

lemma replicate_4: "replicate 4 x = [x, x, x, x]"
  by (simp add: numeral_eq_Suc)

lemma stub_decide_5:
  "decide stub_ops stub_input stub_at_5 = (0, 9, 20, False, ([[8]], [[9]]), 4)"
  by (simp add: decide_def frame_repeat_def upt_4 stub_ops_def stub_step_def stub_input_def
      stub_start_def stub_at_5_def)

lemma stub_tile_9: "preproc_state stub_ops ([[8]], [[9]]) = [[9 / 255]]"
  by (simp add: preproc_state_def screen_Gray_max_def stub_ops_def)

lemma stub_clip: "clip stub_ops 20 = 1"
  by (simp add: stub_ops_def)

lemma stub_prio: "calc_priorities stub_ops p xs g = map (\<lambda>tr. g) xs"
  by (simp add: stub_ops_def)

lemma stub_at_5_shape:
  assumes "buf_size cfg = 4"
  shows "length (img_buf stub_at_5) = buf_size cfg \<and> cur_state stub_at_5 = img_buf stub_at_5 \<and>
      length (step_buffer stub_at_5) \<le> nstep_return cfg"
  using assms by (simp add: stub_at_5_def stub_start_def)

lemma stub_at_5_step:
  assumes k: "buf_size cfg = 4" and st: "step stub_ops cfg stub_input stub_at_5 = Inr s'"
  shows "img_buf s' = [[[0]], [[0]], [[0]], [[9 / 255]]] \<and> cur_state s' = img_buf s' \<and>
     step_buffer s' = [stub_transition] \<and> env s' = 9 \<and> length_epsiode s' = 4 \<and>
     n_episode s' = 0"
proof -
  note U = step_unfolded [OF stub_at_5_shape [OF k] st stub_decide_5 refl refl refl refl refl]
  from U(1) U(3) show ?thesis
    by (simp add: k stub_tile_9 stub_clip stub_at_5_def stub_start_def replicate_4
        stub_transition_def)
qed

lemma stub_at_5_step_one:
  assumes k: "buf_size cfg = 4" and n: "nstep_return cfg = 1"
    and st: "step stub_ops cfg stub_input stub_at_5 = Inr s'"
  shows "if batch_size cfg \<le> 1
         then 0 \<le> batch_size cfg \<and> local_memory s' = [] \<and>
              experience s' =
                [(sample_from [stub_transition] (nat (batch_size cfg)) [],
                  map (\<lambda>tr. gamma cfg) (sample_from [stub_transition] (nat (batch_size cfg)) []))]
         else local_memory s' = [stub_transition] \<and> experience s' = []"
proof -
  have buf: "[[[0]], [[0]], [[0]], [[9 / 255]]] =
      (if buf_size cfg = 0 then []
       else tl (img_buf stub_at_5) @ [preproc_state stub_ops ([[8]], [[9]])])"
    by (simp add: k stub_tile_9 stub_at_5_def stub_start_def replicate_4)
  have tr: "stub_transition = \<lparr>state = cur_state stub_at_5, action = 0,
      reward = clip stub_ops 20, next_state = [[[0]], [[0]], [[0]], [[9 / 255]]],
      done_flag = False\<rparr>"
    by (simp add: stub_transition_def stub_clip stub_at_5_def stub_start_def)
  have w: "[stub_transition] =
      (if length (step_buffer stub_at_5) < nstep_return cfg
       then step_buffer stub_at_5 @ [stub_transition]
       else tl (step_buffer stub_at_5) @ [stub_transition])"
    by (simp add: n stub_at_5_def stub_start_def)
  have agg: "stub_transition = \<lparr>state = state ([stub_transition] ! 0),
      action = action ([stub_transition] ! 0),
      reward = (\<Sum>i<nstep_return cfg.
         gamma cfg ^ (nstep_return cfg - 1 - i) * reward ([stub_transition] ! i)),
      next_state = next_state ([stub_transition] ! (nstep_return cfg - 1)),
      done_flag = done_flag ([stub_transition] ! (nstep_return cfg - 1))\<rparr>"
    by (simp add: n stub_transition_def)
  have mem: "[stub_transition] =
      (if length [stub_transition] = nstep_return cfg
       then push stub_transition (local_memory stub_at_5) else local_memory stub_at_5)"
    by (simp add: n push_def capacity_def stub_at_5_def stub_start_def)
  note U = step_unfolded [OF stub_at_5_shape [OF k] st stub_decide_5 buf tr w agg mem]
  from U(4) show ?thesis
    by (simp add: n stub_prio stub_input_def stub_at_5_def stub_start_def)
qed

lemma step_sync:
  assumes "step ops cfg inp s = Inr s'"
  shows "t_count s' = t_count s + 1 \<and> eps s' = eps s \<and>
     sync ops cfg (store_params inp) (t_count s) (policy_net s) = Inr (policy_net s')"
  using assms unfolding step_def Let_def reset_eq
  by (auto split: sum.splits prod.splits if_splits)

lemma stub_at_5_result:
  assumes k: "buf_size cfg = 4" and st: "step stub_ops cfg stub_input stub_at_5 = Inr s'"
    and m: "local_memory s' = []" and x: "experience s' = ex"
  shows "s' = stub_at_9\<lparr>experience := ex\<rparr>"
proof -
  from step_sync [OF st] have t: "t_count s' = 1" and e: "eps s' = exploration_rate default_cfg"
    and p: "policy_net s' = 0"
    by (simp_all add: sync_def stub_at_5_def stub_start_def)
  from stub_at_5_step [OF k st] have f: "img_buf s' = [[[0]], [[0]], [[0]], [[9 / 255]]]"
    "cur_state s' = [[[0]], [[0]], [[0]], [[9 / 255]]]" "step_buffer s' = [stub_transition]"
    "env s' = 9" "length_epsiode s' = 4" "n_episode s' = 0"
    by simp_all
  show ?thesis
    by (rule actor.equality) (simp_all add: stub_at_9_def t e p f m x)
qed

lemma stub_at_5_step_idle:
  assumes k: "buf_size cfg = 4" and n: "nstep_return cfg \<noteq> 1" and b: "0 < batch_size cfg"
    and st: "step stub_ops cfg stub_input stub_at_5 = Inr s'"
  shows "local_memory s' = [] \<and> experience s' = []"
proof -
  define agg where "agg = \<lparr>state = state ([stub_transition] ! 0),
      action = action ([stub_transition] ! 0),
      reward = (\<Sum>i<nstep_return cfg.
         gamma cfg ^ (nstep_return cfg - 1 - i) * reward ([stub_transition] ! i)),
      next_state = next_state ([stub_transition] ! (nstep_return cfg - 1)),
      done_flag = done_flag ([stub_transition] ! (nstep_return cfg - 1))\<rparr>"
  have buf: "[[[0]], [[0]], [[0]], [[9 / 255]]] =
      (if buf_size cfg = 0 then []
       else tl (img_buf stub_at_5) @ [preproc_state stub_ops ([[8]], [[9]])])"
    by (simp add: k stub_tile_9 stub_at_5_def stub_start_def replicate_4)
  have tr: "stub_transition = \<lparr>state = cur_state stub_at_5, action = 0,
      reward = clip stub_ops 20, next_state = [[[0]], [[0]], [[0]], [[9 / 255]]],
      done_flag = False\<rparr>"
    by (simp add: stub_transition_def stub_clip stub_at_5_def stub_start_def)
  have mem: "[] =
      (if length [stub_transition] = nstep_return cfg
       then push agg (local_memory stub_at_5) else local_memory stub_at_5)"
    using n by (simp add: stub_at_5_def stub_start_def)
  have sb: "step_buffer stub_at_5 = []" by (simp add: stub_at_5_def stub_start_def)
  have pos: "0 < nstep_return cfg"
    by (rule step_unfolded(1) [OF stub_at_5_shape [OF k] st stub_decide_5 refl refl refl refl refl])
  have w: "[stub_transition] =
      (if length (step_buffer stub_at_5) < nstep_return cfg
       then step_buffer stub_at_5 @ [stub_transition]
       else tl (step_buffer stub_at_5) @ [stub_transition])"
    using pos by (simp add: sb)
  note U = step_unfolded [OF stub_at_5_shape [OF k] st stub_decide_5 buf tr w agg_def mem]
  from U(4) b show ?thesis
    by (simp add: stub_at_5_def stub_start_def)
qed

lemma stub_tr_eq:
  assumes "buf_size cfg = 4"
  shows "\<lparr>state = cur_state stub_at_5, action = 0, reward = clip stub_ops 20,
      next_state = (if buf_size cfg = 0 then []
                    else tl (img_buf stub_at_5) @ [preproc_state stub_ops ([[8]], [[9]])]),
      done_flag = False\<rparr> = stub_transition"
  using assms
  by (simp add: stub_tile_9 stub_clip stub_at_5_def stub_start_def replicate_4
      stub_transition_def)

lemma stub_w_eq:
  assumes "0 < nstep_return cfg"
  shows "(if length (step_buffer stub_at_5) < nstep_return cfg
          then step_buffer stub_at_5 @ [x] else tl (step_buffer stub_at_5) @ [x]) = [x]"
  using assms by (simp add: stub_at_5_def stub_start_def)

lemma stub_agg_eq:
  assumes "nstep_return cfg = 1"
  shows "\<lparr>state = state ([stub_transition] ! 0), action = action ([stub_transition] ! 0),
      reward = (\<Sum>i<nstep_return cfg.
         gamma cfg ^ (nstep_return cfg - 1 - i) * reward ([stub_transition] ! i)),
      next_state = next_state ([stub_transition] ! (nstep_return cfg - 1)),
      done_flag = done_flag ([stub_transition] ! (nstep_return cfg - 1))\<rparr> = stub_transition"
  using assms by (simp add: stub_transition_def)

lemma stub_mem_eq:
  assumes "nstep_return cfg = 1"
  shows "(if length [x] = nstep_return cfg then push y (local_memory stub_at_5)
          else local_memory stub_at_5) = [y]"
  using assms by (simp add: push_def capacity_def stub_at_5_def stub_start_def)


section \<open>Frame repetition\<close>

text \<open>
  C9. In every iteration of a run that succeeds, the action chosen at its start is
  executed in exactly four environment steps, each on the environment the previous one
  left; the variables of the inner loop are then as \<open>decide\<close> returns them. If the
  iteration does not end the episode, the environment afterwards is the one the fourth
  step left, and the frame stack is the old one without its oldest tile, followed by
  one new tile: the scaled, resized pixel-wise maximum of the grayscale frames after
  the third and the fourth sub-step. The frames after the first and the second sub-step
  occur nowhere in it. If the iteration ends the episode, the no-op warmup starts from
  the reset of the environment that the fourth step left.
\<close>

theorem step_appends_max_of_last_two_frames:
  assumes run: "run ops cfg r e pol inps = Inr s" and st: "step ops cfg inp s = Inr s'"
  shows "(let a = epsilon_greedy ops (cur_state s) (policy_net s) (eps s) (act_rnd inp);
              (e1, r1, d1) = env_step ops (env s) a;
              (e2, r2, d2) = env_step ops e1 a;
              (e3, r3, d3) = env_step ops e2 a;
              (e4, r4, d4) = env_step ops e3 a;
              tile = map (map (\<lambda>v. v / 255))
                (resize ops (map (map (\<lambda>w. real (unat w)))
                   (map2 (map2 max) (getScreenGrayscale ops e3) (getScreenGrayscale ops e4))))
          in decide ops inp s =
               (a, e4, 0 + r1 + r2 + r3 + r4, d4,
                (getScreenGrayscale ops e3, getScreenGrayscale ops e4), length_epsiode s + 4) \<and>
             (if d4 \<or> length_epsiode s + 4 > 50000
              then env s' = ((\<lambda>e'. fst (env_step ops e' 0)) ^^ Suc (noop_rnd inp mod 29))
                              (env_reset ops e4)
              else env s' = e4 \<and>
                   img_buf s' = (if buf_size cfg = 0 then [] else tl (img_buf s) @ [tile]) \<and>
                   cur_state s' = img_buf s'))"
proof -
  define a where "a = epsilon_greedy ops (cur_state s) (policy_net s) (eps s) (act_rnd inp)"
  obtain e1 r1 d1 where s1: "env_step ops (env s) a = (e1, r1, d1)" by (metis prod_cases3)
  obtain e2 r2 d2 where s2: "env_step ops e1 a = (e2, r2, d2)" by (metis prod_cases3)
  obtain e3 r3 d3 where s3: "env_step ops e2 a = (e3, r3, d3)" by (metis prod_cases3)
  obtain e4 r4 d4 where s4: "env_step ops e3 a = (e4, r4, d4)" by (metis prod_cases3)
  have dec: "decide ops inp s =
      (a, e4, 0 + r1 + r2 + r3 + r4, d4,
       (getScreenGrayscale ops e3, getScreenGrayscale ops e4), length_epsiode s + 4)"
    unfolding decide_unfold Let_def a_def [symmetric] s1 s2 s3 s4 prod.case ..
  note U = step_unfolded [OF run_shape [OF run] st dec refl refl refl refl refl]
  show ?thesis
    unfolding Let_def a_def [symmetric] s1 s2 s3 s4 prod.case
    using dec U(3) by (simp add: preproc_state_def screen_Gray_max_def)
qed


text \<open>The decision taken after five no-op steps on the stub environment: the frames after
  its sub-steps show 6, 7, 8 and 9, and the new tile is \<open>9 / 255\<close>.\<close>

theorem step_appends_max_of_last_two_frames_witness:
  "\<exists>s s'. run stub_ops default_cfg 4 0 0 [] = Inr s \<and>
     step stub_ops default_cfg stub_input s = Inr s' \<and>
     env s' = 9 \<and> img_buf s' = [[[0]], [[0]], [[0]], [[9 / 255]]] \<and>
     cur_state s' = img_buf s'"
proof -
  have run: "run stub_ops default_cfg 4 0 0 [] = Inr stub_at_5"
    by (rule stub_run_at_5) (simp_all add: default_cfg_def)
  obtain s' where st: "step stub_ops default_cfg stub_input stub_at_5 = Inr s'"
    using step_total [of default_cfg stub_ops stub_input stub_at_5]
    by (auto simp: default_cfg_def)
  have "env s' = 9 \<and> img_buf s' = [[[0]], [[0]], [[0]], [[9 / 255]]] \<and>
     cur_state s' = img_buf s'"
    using step_appends_max_of_last_two_frames [OF run st]
    by (simp add: Let_def stub_ops_def stub_step_def stub_input_def stub_at_5_def stub_start_def
        default_cfg_def replicate_4)
  with run st show ?thesis by blast
qed


section \<open>The episode boundary\<close>

text \<open>
  What an iteration does at the boundary, in every iteration of a run that succeeds: if
  the fourth sub-step of the decision reports \<^verbatim>\<open>done\<close> or the in-episode counter,
  advanced by the four sub-steps, exceeds 50,000, then the frame stack and the step
  window are cleared, the frame stack is filled to its capacity with the tile of the
  initial observation (which is then the state of the next decision), the no-op warmup
  has run on the reset environment, the counter is 0 again and one more episode is
  counted. If neither holds, neither buffer is cleared: the frame stack has dropped its
  oldest tile and received the new one, and the step window has received the transition
  of this decision, dropping its oldest entry when it was full.
\<close>

lemma step_boundary:
  assumes run: "run ops cfg r e pol inps = Inr s" and st: "step ops cfg inp s = Inr s'"
  shows "(let a = epsilon_greedy ops (cur_state s) (policy_net s) (eps s) (act_rnd inp);
              (e1, r1, d1) = env_step ops (env s) a;
              (e2, r2, d2) = env_step ops e1 a;
              (e3, r3, d3) = env_step ops e2 a;
              (e4, r4, d4) = env_step ops e3 a;
              buf = (if buf_size cfg = 0 then []
                     else tl (img_buf s) @
                       [preproc_state ops (getScreenGrayscale ops e3, getScreenGrayscale ops e4)]);
              tr = \<lparr>state = cur_state s, action = a, reward = clip ops (0 + r1 + r2 + r3 + r4),
                    next_state = buf, done_flag = d4\<rparr>;
              e0 = env_reset ops e4;
              g0 = getScreenGrayscale ops e0
          in if d4 \<or> length_epsiode s + 4 > 50000
             then img_buf s' = replicate (buf_size cfg) (preproc_state ops (g0, g0)) \<and>
                  cur_state s' = img_buf s' \<and> step_buffer s' = [] \<and>
                  env s' = ((\<lambda>e'. fst (env_step ops e' 0)) ^^ Suc (noop_rnd inp mod 29)) e0 \<and>
                  length_epsiode s' = 0 \<and> n_episode s' = n_episode s + 1
             else img_buf s' = buf \<and> cur_state s' = buf \<and>
                  step_buffer s' =
                    (if length (step_buffer s) < nstep_return cfg then step_buffer s @ [tr]
                     else tl (step_buffer s) @ [tr]) \<and>
                  env s' = e4 \<and> length_epsiode s' = length_epsiode s + 4 \<and>
                  n_episode s' = n_episode s)"
proof -
  define a where "a = epsilon_greedy ops (cur_state s) (policy_net s) (eps s) (act_rnd inp)"
  obtain e1 r1 d1 where s1: "env_step ops (env s) a = (e1, r1, d1)" by (metis prod_cases3)
  obtain e2 r2 d2 where s2: "env_step ops e1 a = (e2, r2, d2)" by (metis prod_cases3)
  obtain e3 r3 d3 where s3: "env_step ops e2 a = (e3, r3, d3)" by (metis prod_cases3)
  obtain e4 r4 d4 where s4: "env_step ops e3 a = (e4, r4, d4)" by (metis prod_cases3)
  have dec: "decide ops inp s =
      (a, e4, 0 + r1 + r2 + r3 + r4, d4,
       (getScreenGrayscale ops e3, getScreenGrayscale ops e4), length_epsiode s + 4)"
    unfolding decide_unfold Let_def a_def [symmetric] s1 s2 s3 s4 prod.case ..
  note U = step_unfolded [OF run_shape [OF run] st dec refl refl refl refl refl]
  show ?thesis
    unfolding Let_def a_def [symmetric] s1 s2 s3 s4 prod.case
    using U(3) by simp
qed


text \<open>The decision taken after two no-op steps on the stub environment: its fourth
  sub-step is the one that reports \<^verbatim>\<open>done\<close>, and the reset follows.\<close>

lemma step_boundary_stub:
  "\<exists>s s'. run stub_ops default_cfg 1 0 0 [] = Inr s \<and>
     step stub_ops default_cfg stub_input s = Inr s' \<and>
     img_buf s' = [[[0]], [[0]], [[0]], [[0]]] \<and> cur_state s' = [[[0]], [[0]], [[0]], [[0]]] \<and>
     step_buffer s' = [] \<and> env s' = 1 \<and> length_epsiode s' = 0 \<and> n_episode s' = 1"
proof -
  obtain s' where st: "step stub_ops default_cfg stub_input stub_start = Inr s'"
    using step_total [of default_cfg stub_ops stub_input stub_start]
    by (auto simp: default_cfg_def)
  have a: "epsilon_greedy stub_ops (cur_state stub_start) (policy_net stub_start)
      (eps stub_start) (act_rnd stub_input) = 0"
    by (simp add: stub_ops_def stub_input_def)
  have e1: "env_step stub_ops (env stub_start) 0 = (3, 5, False)"
    and e2: "env_step stub_ops 3 0 = (4, 5, False)"
    and e3: "env_step stub_ops 4 0 = (5, 5, False)"
    and e4: "env_step stub_ops 5 0 = (6, 5, True)"
    by (simp_all add: stub_ops_def stub_step_def stub_start_def)
  have "img_buf s' = [[[0]], [[0]], [[0]], [[0]]] \<and> cur_state s' = [[[0]], [[0]], [[0]], [[0]]] \<and>
     step_buffer s' = [] \<and> env s' = 1 \<and> length_epsiode s' = 0 \<and> n_episode s' = 1"
    using step_boundary [OF stub_run_start st]
    unfolding Let_def a e1 e2 e3 e4 prod.case stub_reset stub_first_tile stub_noops
    by (simp add: stub_input_def stub_start_def default_cfg_def replicate_4)
  with stub_run_start st show ?thesis by blast
qed


text \<open>
  C7. A terminal signal of the environment triggers the reset only when it comes from the
  fourth sub-step of the decision: line 111 assigns \<^verbatim>\<open>done\<close> anew in every sub-step
  and line 131 tests the last value. After five no-op steps on the stub environment
  the action 0 is chosen and the first sub-step reports \<^verbatim>\<open>done\<close>; the iteration ends in
  the state \<open>stub_at_9\<close>: the frame stack keeps three old tiles and has received the new
  one, the step window holds the transition, no warmup has run (the environment has
  just been stepped four times, to state 9), the counter is 4 and no episode is counted.
\<close>

theorem terminal_on_first_sub_step_no_reset:
  "run stub_ops default_cfg 4 0 0 [] = Inr stub_at_5 \<and>
   epsilon_greedy stub_ops (cur_state stub_at_5) (policy_net stub_at_5) (eps stub_at_5)
     (act_rnd stub_input) = 0 \<and>
   env_step stub_ops (env stub_at_5) 0 = (6, 5, True) \<and>
   step stub_ops default_cfg stub_input stub_at_5 = Inr stub_at_9 \<and>
   img_buf stub_at_9 = [[[0]], [[0]], [[0]], [[9 / 255]]] \<and>
   step_buffer stub_at_9 = [stub_transition] \<and> env stub_at_9 = 9 \<and>
   length_epsiode stub_at_9 = 4 \<and> n_episode stub_at_9 = 0"
proof -
  have k: "buf_size default_cfg = 4" and n: "nstep_return default_cfg \<noteq> 1"
    and b: "0 < batch_size default_cfg"
    by (simp_all add: default_cfg_def)
  have run: "run stub_ops default_cfg 4 0 0 [] = Inr stub_at_5"
    using k by (rule stub_run_at_5) simp
  obtain s' where st: "step stub_ops default_cfg stub_input stub_at_5 = Inr s'"
    using step_total [of default_cfg stub_ops stub_input stub_at_5]
    by (auto simp: default_cfg_def)
  from stub_at_5_step_idle [OF k n b st] have "s' = stub_at_9\<lparr>experience := []\<rparr>"
    by (intro stub_at_5_result [OF k st]) simp_all
  then have "s' = stub_at_9" by (simp add: stub_at_9_def)
  with st have res: "step stub_ops default_cfg stub_input stub_at_5 = Inr stub_at_9" by simp
  have first: "epsilon_greedy stub_ops (cur_state stub_at_5) (policy_net stub_at_5)
      (eps stub_at_5) (act_rnd stub_input) = 0 \<and>
    env_step stub_ops (env stub_at_5) 0 = (6, 5, True)"
    by (simp add: stub_ops_def stub_step_def stub_input_def stub_at_5_def)
  have fields: "img_buf stub_at_9 = [[[0]], [[0]], [[0]], [[9 / 255]]] \<and>
   step_buffer stub_at_9 = [stub_transition] \<and> env stub_at_9 = 9 \<and>
   length_epsiode stub_at_9 = 4 \<and> n_episode stub_at_9 = 0"
    by (simp add: stub_at_9_def)
  from run first res fields show ?thesis by (intro conjI) simp_all
qed


section \<open>The termination flag of a decision step\<close>

text \<open>
  C4. The inner loop assigns \<^verbatim>\<open>done\<close> anew in each of the four sub-steps (the reward
  is added up, the flag is not), so the recorded transition carries the flag of the
  fourth sub-step only. On the stub environment started after five no-op steps with
  the default configuration, the first sub-step of the first decision reports
  \<^verbatim>\<open>done\<close>, and yet the run of one iteration ends in the state \<open>stub_at_9\<close>: the step
  window holds one transition whose flag is false, no episode is counted and there was
  no reset, the environment has simply been stepped four times, to state 9.
\<close>

theorem done_of_first_sub_step_lost:
  "env_step stub_ops (env stub_at_5) 0 = (6, 5, True) \<and>
   run stub_ops default_cfg 4 0 0 [stub_input] = Inr stub_at_9 \<and>
   map done_flag (step_buffer stub_at_9) = [False] \<and>
   n_episode stub_at_9 = 0 \<and> env stub_at_9 = 9"
proof -
  have k: "buf_size default_cfg = 4" and n: "nstep_return default_cfg \<noteq> 1"
    and b: "0 < batch_size default_cfg"
    by (simp_all add: default_cfg_def)
  obtain s where st: "step stub_ops default_cfg stub_input stub_at_5 = Inr s"
    using step_total [of default_cfg stub_ops stub_input stub_at_5]
    by (auto simp: default_cfg_def)
  from stub_at_5_step_idle [OF k n b st] have "s = stub_at_9\<lparr>experience := []\<rparr>"
    by (intro stub_at_5_result [OF k st]) simp_all
  then have s: "s = stub_at_9" by (simp add: stub_at_9_def)
  have init: "run_init stub_ops default_cfg 4 0 0 = Inr stub_at_5"
    using k by (rule stub_at_5_init) simp
  have run: "run stub_ops default_cfg 4 0 0 [stub_input] = Inr s"
    unfolding run_def init by (simp add: st)
  have first: "env_step stub_ops (env stub_at_5) 0 = (6, 5, True)"
    by (simp add: stub_ops_def stub_step_def stub_at_5_def)
  have fields: "map done_flag (step_buffer stub_at_9) = [False] \<and>
      n_episode stub_at_9 = 0 \<and> env stub_at_9 = 9"
    by (simp add: stub_at_9_def stub_transition_def)
  from first run [unfolded s] fields show ?thesis by (intro conjI) simp_all
qed


section \<open>The n-step return\<close>

text \<open>
  C1. In every iteration of a run that succeeds, the horizon N is at least 1 and the
  step window, after it has received the transition of this decision, holds at most N
  transitions. Whenever it holds exactly N, exactly one aggregated transition is pushed
  into the local memory: its reward is the sum over \<open>i < N\<close> of \<open>gamma ^ (N - 1 - i)\<close>
  times the reward of \<open>window[i]\<close>, its state and action are those of \<open>window[0]\<close>,
  its next state and its done flag those of \<open>window[N - 1]\<close>. Otherwise nothing is
  pushed. The memory so obtained is what the iteration leaves as the local memory, or,
  when it has reached the batch size, what the published sample is drawn from.
  (Floats are idealised as reals.)
\<close>

theorem step_emits_n_step_transition:
  assumes run: "run ops cfg r e pol inps = Inr s" and st: "step ops cfg inp s = Inr s'"
  shows "(let N = nstep_return cfg;
              (a, e4, rw, d, sc, len) = decide ops inp s;
              tr = \<lparr>state = cur_state s, action = a, reward = clip ops rw,
                    next_state = (if buf_size cfg = 0 then []
                                  else tl (img_buf s) @ [preproc_state ops sc]),
                    done_flag = d\<rparr>;
              w = (if length (step_buffer s) < N then step_buffer s @ [tr]
                   else tl (step_buffer s) @ [tr]);
              agg = \<lparr>state = state (w ! 0), action = action (w ! 0),
                     reward = (\<Sum>i<N. gamma cfg ^ (N - 1 - i) * reward (w ! i)),
                     next_state = next_state (w ! (N - 1)),
                     done_flag = done_flag (w ! (N - 1))\<rparr>;
              mem = (if length w = N then push agg (local_memory s) else local_memory s)
          in 0 < N \<and> length w \<le> N \<and>
             (if batch_size cfg \<le> int (length mem)
              then local_memory s' = [] \<and>
                   (\<exists>prio. experience s' = experience s @
                      [(sample_from mem (nat (batch_size cfg)) (sample_rnd inp), prio)])
              else local_memory s' = mem \<and> experience s' = experience s))"
proof -
  obtain a e4 rw d sc len where dec: "decide ops inp s = (a, e4, rw, d, sc, len)"
    by (metis prod_cases3)
  note U = step_unfolded [OF run_shape [OF run] st dec refl refl refl refl refl]
  show ?thesis
    unfolding Let_def dec prod.case
    using U(1) U(2) U(4) by auto
qed


text \<open>Horizon 1 on the stub environment: the window is full with the first decision, and
  its transition is in the local memory after the iteration.\<close>

theorem step_emits_n_step_transition_witness:
  "\<exists>s s'. run stub_ops (default_cfg\<lparr>nstep_return := 1\<rparr>) 4 0 0 [] = Inr s \<and>
     step stub_ops (default_cfg\<lparr>nstep_return := 1\<rparr>) stub_input s = Inr s' \<and>
     local_memory s' = [stub_transition] \<and> experience s' = []"
proof -
  define cfg where "cfg = default_cfg\<lparr>nstep_return := 1\<rparr>"
  have k: "buf_size cfg = 4" and n: "nstep_return cfg = 1" and b: "batch_size cfg = 50"
    and u: "target_update cfg \<noteq> 0"
    and ex: "exploration_rate cfg = exploration_rate default_cfg"
    by (simp_all add: cfg_def default_cfg_def exploration_rate_def)
  have pos: "0 < nstep_return cfg" by (simp add: n)
  have run: "run stub_ops cfg 4 0 0 [] = Inr stub_at_5"
    using k ex by (rule stub_run_at_5)
  obtain s' where st: "step stub_ops cfg stub_input stub_at_5 = Inr s'"
    using step_total [of cfg stub_ops stub_input stub_at_5] pos b u by auto
  have "local_memory s' = [stub_transition] \<and> experience s' = []"
    using step_emits_n_step_transition [OF run st]
    unfolding Let_def stub_decide_5 prod.case stub_tr_eq [OF k] stub_w_eq [OF pos]
      stub_agg_eq [OF n] stub_mem_eq [OF n]
    by (simp add: b stub_at_5_def stub_start_def)
  with run st show ?thesis unfolding cfg_def by blast
qed


section \<open>Publication\<close>

text \<open>
  C2. In every iteration of a run that succeeds: when the local memory, after the push
  of this iteration if there was one, holds at least B transitions (B the batch size),
  the iteration publishes exactly once. One record is added to the queue; its samples
  are B transitions of the memory, each taken at most as often as the memory holds it;
  its priorities are what the scoring oracle returns for these samples and the discount
  \<open>gamma ^ N\<close>, B of them when the oracle returns one weight for each transition; and
  the local memory is empty afterwards. When the memory holds fewer, nothing is
  published and the memory is kept.
\<close>

theorem step_publishes_at_threshold:
  assumes weights: "\<forall>p xs g. length (calc_priorities ops p xs g) = length xs"
    and run: "run ops cfg r e pol inps = Inr s" and st: "step ops cfg inp s = Inr s'"
  shows "(let N = nstep_return cfg;
              B = batch_size cfg;
              (a, e4, rw, d, sc, len) = decide ops inp s;
              tr = \<lparr>state = cur_state s, action = a, reward = clip ops rw,
                    next_state = (if buf_size cfg = 0 then []
                                  else tl (img_buf s) @ [preproc_state ops sc]),
                    done_flag = d\<rparr>;
              w = (if length (step_buffer s) < N then step_buffer s @ [tr]
                   else tl (step_buffer s) @ [tr]);
              agg = \<lparr>state = state (w ! 0), action = action (w ! 0),
                     reward = (\<Sum>i<N. gamma cfg ^ (N - 1 - i) * reward (w ! i)),
                     next_state = next_state (w ! (N - 1)),
                     done_flag = done_flag (w ! (N - 1))\<rparr>;
              mem = (if length w = N then push agg (local_memory s) else local_memory s)
          in if B \<le> int (length mem)
             then (\<exists>samples prio.
                     experience s' = experience s @ [(samples, prio)] \<and>
                     int (length samples) = B \<and> int (length prio) = B \<and>
                     mset samples \<subseteq># mset mem \<and>
                     prio = calc_priorities ops (policy_net s) samples (gamma cfg ^ N)) \<and>
                  local_memory s' = []
             else experience s' = experience s \<and> local_memory s' = mem)"
proof -
  obtain a e4 rw d sc len where dec: "decide ops inp s = (a, e4, rw, d, sc, len)"
    by (metis prod_cases3)
  note U = step_unfolded [OF run_shape [OF run] st dec refl refl refl refl refl]
  have sub: "\<And>mem :: transition list. 0 \<le> batch_size cfg \<Longrightarrow> batch_size cfg \<le> int (length mem) \<Longrightarrow>
      mset (sample_from mem (nat (batch_size cfg)) (sample_rnd inp)) \<subseteq># mset mem"
    by (intro mset_sample_from_subset) simp
  show ?thesis
    unfolding Let_def dec prod.case
    using U(4) weights sub by (auto simp: length_sample_from)
qed


text \<open>Horizon 1 and batch size 1 on the stub environment: the first iteration publishes
  the transition of its decision.\<close>

theorem step_publishes_at_threshold_witness:
  "\<exists>s s'. run stub_ops (default_cfg\<lparr>batch_size := 1, nstep_return := 1\<rparr>) 4 0 0 [] = Inr s \<and>
     step stub_ops (default_cfg\<lparr>batch_size := 1, nstep_return := 1\<rparr>) stub_input s = Inr s' \<and>
     local_memory s' = [] \<and>
     (\<exists>samples prio. experience s' = [(samples, prio)] \<and>
        length samples = 1 \<and> length prio = 1 \<and> set samples = {stub_transition})"
proof -
  define cfg where "cfg = default_cfg\<lparr>batch_size := 1, nstep_return := 1\<rparr>"
  have k: "buf_size cfg = 4" and n: "nstep_return cfg = 1" and b: "batch_size cfg = 1"
    and u: "target_update cfg \<noteq> 0"
    and ex: "exploration_rate cfg = exploration_rate default_cfg"
    by (simp_all add: cfg_def default_cfg_def exploration_rate_def)
  have pos: "0 < nstep_return cfg" by (simp add: n)
  have weights: "\<forall>p xs g. length (calc_priorities stub_ops p xs g) = length xs"
    by (simp add: stub_prio)
  have run: "run stub_ops cfg 4 0 0 [] = Inr stub_at_5"
    using k ex by (rule stub_run_at_5)
  obtain s' where st: "step stub_ops cfg stub_input stub_at_5 = Inr s'"
    using step_total [of cfg stub_ops stub_input stub_at_5] pos b u by auto
  have "(\<exists>samples prio.
           experience s' = experience stub_at_5 @ [(samples, prio)] \<and>
           int (length samples) = 1 \<and> int (length prio) = 1 \<and>
           mset samples \<subseteq># mset [stub_transition] \<and>
           prio = calc_priorities stub_ops (policy_net stub_at_5) samples (gamma cfg ^ 1)) \<and>
        local_memory s' = []"
    using step_publishes_at_threshold [OF weights run st]
    unfolding Let_def stub_decide_5 prod.case stub_tr_eq [OF k] stub_w_eq [OF pos]
      stub_agg_eq [OF n] stub_mem_eq [OF n]
    by (simp add: b n)
  then obtain samples prio where e: "experience s' = experience stub_at_5 @ [(samples, prio)]"
    and ls: "int (length samples) = 1" and lp: "int (length prio) = 1"
    and sub: "mset samples \<subseteq># mset [stub_transition]"
    and mem: "local_memory s' = []"
    by blast
  from ls obtain x where x: "samples = [x]"
    by (cases samples) auto
  with sub have "x = stub_transition" by simp
  with x e ls lp mem have "local_memory s' = [] \<and>
     (\<exists>samples prio. experience s' = [(samples, prio)] \<and>
        length samples = 1 \<and> length prio = 1 \<and> set samples = {stub_transition})"
    by (simp add: stub_at_5_def stub_start_def)
  with run st show ?thesis unfolding cfg_def by blast
qed


section \<open>The occupancy of the local memory\<close>

text \<open>
  C10. For a batch size B of at least 1: in every state a run reaches the local memory
  holds fewer than B transitions; in the iteration that follows, the memory holds at
  most B after the push, and again fewer than B at the end. The iteration publishes
  exactly when the memory holds B: the sample is then the whole memory (as a multiset),
  so the flush discards nothing that was not sampled. Otherwise the memory is kept as
  it is.
\<close>

theorem memory_below_threshold:
  assumes b: "1 \<le> batch_size cfg"
    and run: "run ops cfg r e pol inps = Inr s" and st: "step ops cfg inp s = Inr s'"
  shows "(let N = nstep_return cfg;
              B = batch_size cfg;
              (a, e4, rw, d, sc, len) = decide ops inp s;
              tr = \<lparr>state = cur_state s, action = a, reward = clip ops rw,
                    next_state = (if buf_size cfg = 0 then []
                                  else tl (img_buf s) @ [preproc_state ops sc]),
                    done_flag = d\<rparr>;
              w = (if length (step_buffer s) < N then step_buffer s @ [tr]
                   else tl (step_buffer s) @ [tr]);
              agg = \<lparr>state = state (w ! 0), action = action (w ! 0),
                     reward = (\<Sum>i<N. gamma cfg ^ (N - 1 - i) * reward (w ! i)),
                     next_state = next_state (w ! (N - 1)),
                     done_flag = done_flag (w ! (N - 1))\<rparr>;
              mem = (if length w = N then push agg (local_memory s) else local_memory s)
          in int (length (local_memory s)) < B \<and> int (length mem) \<le> B \<and>
             int (length (local_memory s')) < B \<and>
             (if int (length mem) = B
              then local_memory s' = [] \<and>
                   (\<exists>samples prio. experience s' = experience s @ [(samples, prio)] \<and>
                      mset samples = mset mem)
              else local_memory s' = mem \<and> experience s' = experience s))"
proof -
  obtain a e4 rw d sc len where dec: "decide ops inp s = (a, e4, rw, d, sc, len)"
    by (metis prod_cases3)
  define tr where "tr = \<lparr>state = cur_state s, action = a, reward = clip ops rw,
      next_state = (if buf_size cfg = 0 then [] else tl (img_buf s) @ [preproc_state ops sc]),
      done_flag = d\<rparr>"
  define w where "w = (if length (step_buffer s) < nstep_return cfg then step_buffer s @ [tr]
      else tl (step_buffer s) @ [tr])"
  define agg where "agg = \<lparr>state = state (w ! 0), action = action (w ! 0),
      reward = (\<Sum>i<nstep_return cfg. gamma cfg ^ (nstep_return cfg - 1 - i) * reward (w ! i)),
      next_state = next_state (w ! (nstep_return cfg - 1)),
      done_flag = done_flag (w ! (nstep_return cfg - 1))\<rparr>"
  define mem where "mem = (if length w = nstep_return cfg then push agg (local_memory s)
      else local_memory s)"
  note U = step_unfolded [OF run_shape [OF run] st dec refl tr_def w_def agg_def mem_def]
  have below: "int (length (local_memory s)) < batch_size cfg"
    using b run by (rule run_memory_below)
  have "length (push agg (local_memory s)) \<le> Suc (length (local_memory s))"
    by (rule length_push_le)
  with below have le: "int (length mem) \<le> batch_size cfg"
    by (simp add: mem_def)
  have all: "int (length mem) = batch_size cfg \<Longrightarrow>
      mset (sample_from mem (nat (batch_size cfg)) (sample_rnd inp)) = mset mem"
    by (intro mset_sample_from_all) simp
  have main: "int (length (local_memory s)) < batch_size cfg \<and>
      int (length mem) \<le> batch_size cfg \<and>
      int (length (local_memory s')) < batch_size cfg \<and>
      (if int (length mem) = batch_size cfg
       then local_memory s' = [] \<and>
            (\<exists>samples prio. experience s' = experience s @ [(samples, prio)] \<and>
               mset samples = mset mem)
       else local_memory s' = mem \<and> experience s' = experience s)"
    using U(4) below le all b by (auto split: if_splits)
  show ?thesis
    unfolding Let_def dec prod.case
    by (rule main [unfolded mem_def agg_def w_def tr_def])
qed


text \<open>Horizon 1 and batch size 1 on the stub environment.\<close>

theorem memory_below_threshold_witness:
  "\<exists>s s'. run stub_ops (default_cfg\<lparr>batch_size := 1, nstep_return := 1\<rparr>) 4 0 0 [] = Inr s \<and>
     step stub_ops (default_cfg\<lparr>batch_size := 1, nstep_return := 1\<rparr>) stub_input s = Inr s' \<and>
     local_memory s = [] \<and> local_memory s' = [] \<and>
     (\<exists>samples prio. experience s' = [(samples, prio)] \<and> mset samples = {#stub_transition#})"
proof -
  define cfg where "cfg = default_cfg\<lparr>batch_size := 1, nstep_return := 1\<rparr>"
  have k: "buf_size cfg = 4" and n: "nstep_return cfg = 1" and b: "batch_size cfg = 1"
    and u: "target_update cfg \<noteq> 0"
    and ex: "exploration_rate cfg = exploration_rate default_cfg"
    by (simp_all add: cfg_def default_cfg_def exploration_rate_def)
  have pos: "0 < nstep_return cfg" by (simp add: n)
  have b1: "1 \<le> batch_size cfg" by (simp add: b)
  have run: "run stub_ops cfg 4 0 0 [] = Inr stub_at_5"
    using k ex by (rule stub_run_at_5)
  obtain s' where st: "step stub_ops cfg stub_input stub_at_5 = Inr s'"
    using step_total [of cfg stub_ops stub_input stub_at_5] pos b u by auto
  have "local_memory stub_at_5 = [] \<and> local_memory s' = [] \<and>
     (\<exists>samples prio. experience s' = [(samples, prio)] \<and> mset samples = {#stub_transition#})"
    using memory_below_threshold [OF b1 run st]
    unfolding Let_def stub_decide_5 prod.case stub_tr_eq [OF k] stub_w_eq [OF pos]
      stub_agg_eq [OF n] stub_mem_eq [OF n]
    by (simp add: b stub_at_5_def stub_start_def)
  with run st show ?thesis unfolding cfg_def by blast
qed


text \<open>With batch size 0 the bound fails. The memory is empty at the start; the first
  iteration (horizon 1) pushes the transition of its decision, so the memory holds one
  transition, more than B; the publish block runs on it, its sample is empty, and the
  flush discards the transition that was never sampled: the iteration ends with an
  empty memory and a record without samples in the queue.\<close>

theorem flush_discards_with_empty_batch:
  "run stub_ops (default_cfg\<lparr>batch_size := 0, nstep_return := 1\<rparr>) 4 0 0 [] = Inr stub_at_5 \<and>
   local_memory stub_at_5 = [] \<and>
   n_step_push (default_cfg\<lparr>batch_size := 0, nstep_return := 1\<rparr>) [stub_transition] [] =
     Inr [stub_transition] \<and>
   publish stub_ops (default_cfg\<lparr>batch_size := 0, nstep_return := 1\<rparr>) [] 0 [stub_transition] [] =
     Inr ([], [([], [])]) \<and>
   step stub_ops (default_cfg\<lparr>batch_size := 0, nstep_return := 1\<rparr>) stub_input stub_at_5 =
     Inr (stub_at_9\<lparr>experience := [([], [])]\<rparr>)"
proof -
  define cfg where "cfg = default_cfg\<lparr>batch_size := 0, nstep_return := 1\<rparr>"
  have k: "buf_size cfg = 4" and n: "nstep_return cfg = 1" and b: "batch_size cfg = 0"
    and u: "target_update cfg \<noteq> 0"
    and ex: "exploration_rate cfg = exploration_rate default_cfg"
    by (simp_all add: cfg_def default_cfg_def exploration_rate_def)
  have pos: "0 < nstep_return cfg" by (simp add: n)
  have run: "run stub_ops cfg 4 0 0 [] = Inr stub_at_5"
    using k ex by (rule stub_run_at_5)
  obtain s' where st: "step stub_ops cfg stub_input stub_at_5 = Inr s'"
    using step_total [of cfg stub_ops stub_input stub_at_5] pos b u by auto
  have empty: "local_memory stub_at_5 = []"
    by (simp add: stub_at_5_def stub_start_def)
  have len: "length [stub_transition] = nstep_return cfg" by (simp add: n)
  have emit: "n_step_push cfg [stub_transition] [] = Inr [stub_transition]"
    unfolding n_step_push_full [OF pos len] stub_agg_eq [OF n]
    by (simp add: push_def capacity_def)
  have pub: "publish stub_ops cfg [] 0 [stub_transition] [] = Inr ([], [([], [])])"
    by (simp add: publish_def sample_def gamma_last clear_def b stub_prio)
  from stub_at_5_step_one [OF k n st] have "experience s' = [([], [])]" "local_memory s' = []"
    by (simp_all add: b)
  then have "s' = stub_at_9\<lparr>experience := [([], [])]\<rparr>"
    by (intro stub_at_5_result [OF k st]) simp_all
  with st have res: "step stub_ops cfg stub_input stub_at_5 =
      Inr (stub_at_9\<lparr>experience := [([], [])]\<rparr>)"
    by simp
  from run empty emit pub res show ?thesis unfolding cfg_def by (intro conjI)
qed

end
